theory Spec2Isabelle
  imports Main "HOL-Library.Sublist"
begin

section \<open>The rule destructuring-assignment: syntax tree, host and state\<close>

text \<open>
  The rule of \<^verbatim>\<open>lib/rules/destructuring-assignment.js\<close> is a set of visitor handlers
  that share three pieces of mutable state: the queue of \<^verbatim>\<open>createSFCParams\<close>, the set
  \<^verbatim>\<open>contextSet\<close> and the reporting sink of the lint engine. The handlers are modelled as
  functions from state to state; what the engine and the helper modules answer is
  collected in a record of the rule's context.
\<close>

type_synonym node_id = nat
type_synonym text_range = "nat \<times> nat"

text \<open>
  Function parameters and the \<^verbatim>\<open>id\<close> of a declarator are patterns. Only an Identifier
  carries a \<^verbatim>\<open>name\<close>; every node has a \<^verbatim>\<open>range\<close>, and a typed parameter a
  \<^verbatim>\<open>typeAnnotation\<close> with a range of its own.
\<close>

datatype pattern_type =
    IdentifierPattern string
  | ObjectPattern
  | ArrayPattern
  | AssignmentPattern
  | RestElement

record pattern =
  ptype :: pattern_type
  prange :: text_range
  typeAnnotation :: "text_range option"

text \<open>Expressions, with the fields the handlers read.\<close>

datatype expr =
    Identifier string
  | ThisExpression
  | MemberExpression expr expr
  | CallExpression expr "expr list"
  | NewExpression expr "expr list"
  | OtherExpression string

text \<open>\<^verbatim>\<open>e.name\<close>, \<^verbatim>\<open>e.object\<close>, \<^verbatim>\<open>e.property\<close>, \<^verbatim>\<open>e.callee\<close>: undefined is \<open>None\<close>.\<close>

fun name_of :: "expr \<Rightarrow> string option" where
  "name_of (Identifier n) = Some n"
| "name_of _ = None"

fun object_of :: "expr \<Rightarrow> expr option" where
  "object_of (MemberExpression obj prop) = Some obj"
| "object_of _ = None"

fun property_of :: "expr \<Rightarrow> expr option" where
  "property_of (MemberExpression obj prop) = Some prop"
| "property_of _ = None"

fun callee_of :: "expr \<Rightarrow> expr option" where
  "callee_of (CallExpression c args) = Some c"
| "callee_of (NewExpression c args) = Some c"
| "callee_of _ = None"

fun is_ThisExpression :: "expr \<Rightarrow> bool" where
  "is_ThisExpression ThisExpression = True"
| "is_ThisExpression _ = False"

record function_node =
  f_id :: node_id
  f_params :: "pattern list"

text \<open>
  A member access \<^verbatim>\<open>object.property\<close>. The chain \<^verbatim>\<open>node.parent\<close>,
  \<^verbatim>\<open>node.parent.parent\<close>, ... is kept as the list of the ancestors' types, nearest
  first, which is all that \<^verbatim>\<open>isInClassProperty\<close> reads of it. \<open>m_role\<close> is the key
  under which the parent holds the node: \<^verbatim>\<open>left\<close> for the target of an assignment
  expression, \<^verbatim>\<open>argument\<close> for the operand of an update expression or of a return
  statement, and so on.
\<close>

record member_node =
  m_id :: node_id
  m_object :: expr
  m_property :: expr
  m_ancestors :: "string list"
  m_role :: string

text \<open>
  A variable declarator \<^verbatim>\<open>id = init\<close>; \<^verbatim>\<open>init\<close> is null in \<^verbatim>\<open>let x;\<close>.
  Its parent is the declaration statement.
\<close>

record declarator_node =
  d_id :: node_id
  d_pattern :: pattern
  d_init :: "expr option"
  d_parent :: node_id
  d_parent_type :: string

text \<open>
  Scopes of the scope manager: the node that opens the scope, its variables (the Map
  \<^verbatim>\<open>scope.set\<close>, each variable with its list of references) and the enclosing scope.
\<close>

record variable =
  references :: "node_id list"

datatype scope = Scope (block: node_id) (scope_set: "(string \<times> variable) list") (upper: "scope option")

record component =
  comp_node :: function_node

record rule_options =
  opt_ignoreClassFields :: "bool option"
  opt_destructureInSignature :: "string option"

text \<open>
  What the rule consumes from outside this file: the options, the scope of the node
  being visited, the registry of \<^verbatim>\<open>Components.detect\<close>, \<^verbatim>\<open>utils.getParentComponent\<close>,
  \<^verbatim>\<open>isAssignmentLHS\<close> of util/ast, the answer of
  \<^verbatim>\<open>testReactVersion(context, '>= 16.9')\<close> and the text of a node. None of these is
  defined in the rule's file, so each is a parameter here. A handler is given the
  context as it answers when the handler runs. The options, the scopes, the version
  test, \<^verbatim>\<open>isAssignmentLHS\<close> and the text do not change during a traversal; the
  registry does, since \<^verbatim>\<open>Components.detect\<close> fills it during the same traversal (see
  \<open>run\<close> below).
\<close>

record rule_context =
  options0 :: "string option"
  options1 :: "rule_options option"
  getScope :: "node_id \<Rightarrow> scope"
  components_get :: "node_id \<Rightarrow> component option"
  getParentComponent :: "node_id \<Rightarrow> component option"
  isAssignmentLHS :: "node_id \<Rightarrow> bool"
  testReactVersion :: bool
  getText :: "pattern \<Rightarrow> string"

datatype fix_op = ReplaceTextRange text_range string | Remove node_id

text \<open>
  A report as the sink receives it. \<open>r_fix\<close> is \<open>None\<close> when the report has no
  \<^verbatim>\<open>fix\<close> callback, \<open>Some None\<close> when the callback returns undefined, and
  \<open>Some (Some ops)\<close> when it returns the edits \<open>ops\<close>.
\<close>

record report =
  r_node :: node_id
  messageId :: "string option"
  message :: string
  data_type :: "string option"
  r_fix :: "fix_op list option option"

record descriptor =
  destructuring :: bool
  name :: "string option"

record state =
  queue :: "descriptor list list"
  contextSet :: "string set"
  reports :: "report list"

definition init_state :: state where
  "init_state = \<lparr>queue = [], contextSet = {}, reports = []\<rparr>"

section \<open>createSFCParams and evalParams\<close>

text \<open>\<^verbatim>\<open>params[i]\<close>: undefined past the end of the array.\<close>

fun slot :: "'a list \<Rightarrow> nat \<Rightarrow> 'a option" where
  "slot [] i = None"
| "slot (x # xs) 0 = Some x"
| "slot (x # xs) (Suc i) = slot xs i"

text \<open>A name is truthy when it is a non-empty string; \<^verbatim>\<open>false\<close> and undefined are \<open>None\<close>.\<close>

definition truthy_name :: "string option \<Rightarrow> bool" where
  "truthy_name n = (case n of None \<Rightarrow> False | Some str \<Rightarrow> str \<noteq> [])"

definition push :: "descriptor list \<Rightarrow> descriptor list list \<Rightarrow> descriptor list list" where
  "push params q = params # q"

definition pop :: "descriptor list list \<Rightarrow> descriptor list list" where
  "pop q = (case q of [] \<Rightarrow> [] | params # rest \<Rightarrow> rest)"

definition props_pred :: "descriptor list \<Rightarrow> bool" where
  "props_pred params =
     (case slot params 0 of None \<Rightarrow> False
      | Some props \<Rightarrow> \<not> destructuring props \<and> truthy_name (name props))"

definition propsName :: "descriptor list list \<Rightarrow> string option" where
  "propsName q =
     (case find props_pred q of None \<Rightarrow> None
      | Some found \<Rightarrow> (case slot found 0 of None \<Rightarrow> None | Some props \<Rightarrow> name props))"

definition context_pred :: "descriptor list \<Rightarrow> bool" where
  "context_pred params =
     (case slot params 1 of None \<Rightarrow> False
      | Some ctx \<Rightarrow> \<not> destructuring ctx \<and> truthy_name (name ctx))"

definition contextName :: "descriptor list list \<Rightarrow> string option" where
  "contextName q =
     (case find context_pred q of None \<Rightarrow> None
      | Some found \<Rightarrow> (case slot found 1 of None \<Rightarrow> None | Some ctx \<Rightarrow> name ctx))"

definition evalParam :: "pattern \<Rightarrow> descriptor" where
  "evalParam param =
     \<lparr>destructuring = (ptype param = ObjectPattern),
      name = (case ptype param of IdentifierPattern n \<Rightarrow> Some n | _ \<Rightarrow> None)\<rparr>"

definition evalParams :: "pattern list \<Rightarrow> descriptor list" where
  "evalParams params = map evalParam params"

section \<open>Messages and reports\<close>

definition messages :: "(string \<times> string) list" where
  "messages =
    [(''noDestructPropsInSFCArg'', ''Must never use destructuring props assignment in SFC argument''),
     (''noDestructContextInSFCArg'', ''Must never use destructuring context assignment in SFC argument''),
     (''noDestructAssignment'', ''Must never use destructuring {{type}} assignment''),
     (''useDestructAssignment'', ''Must use destructuring {{type}} assignment''),
     (''destructureInSignature'', ''Must destructure props in the function signature.'')]"

definition messages_get :: "string \<Rightarrow> string" where
  "messages_get k = (case map_of messages k of None \<Rightarrow> [] | Some m \<Rightarrow> m)"

text \<open>
  Modelled from the spec: the helper \<^verbatim>\<open>report\<close> of util/report is not in the rule's
  file. The rule calls it with the message text, the message key and the report's
  \<^verbatim>\<open>node\<close>, \<^verbatim>\<open>data\<close> and \<^verbatim>\<open>fix\<close>; by the spec a report so made carries the message
  key, the node and the interpolation data.
\<close>

definition report_util ::
  "string \<Rightarrow> string \<Rightarrow> node_id \<Rightarrow> string option \<Rightarrow> fix_op list option option \<Rightarrow> report" where
  "report_util msg key n ty fx =
     \<lparr>r_node = n, messageId = Some key, message = msg, data_type = ty, r_fix = fx\<rparr>"

text \<open>\<^verbatim>\<open>context.report({node, message})\<close>: a report with a message text and no key.\<close>

definition context_report :: "node_id \<Rightarrow> string \<Rightarrow> report" where
  "context_report n msg =
     \<lparr>r_node = n, messageId = None, message = msg, data_type = None, r_fix = None\<rparr>"

text \<open>A template literal \<^verbatim>\<open>${v}\<close> prints an undefined value as the word undefined.\<close>

definition template_str :: "string option \<Rightarrow> string" where
  "template_str v = (case v of None \<Rightarrow> ''undefined'' | Some str \<Rightarrow> str)"

definition emit :: "report \<Rightarrow> state \<Rightarrow> state" where
  "emit r s = s\<lparr>reports := reports s @ [r]\<rparr>"

section \<open>Configuration\<close>

definition DEFAULT_OPTION :: string where
  "DEFAULT_OPTION = ''always''"

definition configuration :: "rule_context \<Rightarrow> string" where
  "configuration ctx =
     (case options0 ctx of None \<Rightarrow> DEFAULT_OPTION
      | Some str \<Rightarrow> if str = [] then DEFAULT_OPTION else str)"

definition ignoreClassFields :: "rule_context \<Rightarrow> bool" where
  "ignoreClassFields ctx =
     (case options1 ctx of None \<Rightarrow> False
      | Some opts \<Rightarrow> opt_ignoreClassFields opts = Some True)"

definition destructureInSignature :: "rule_context \<Rightarrow> string" where
  "destructureInSignature ctx =
     (case options1 ctx of None \<Rightarrow> ''ignore''
      | Some opts \<Rightarrow>
          (case opt_destructureInSignature opts of None \<Rightarrow> ''ignore''
           | Some str \<Rightarrow> if str = [] then ''ignore'' else str))"

definition hasHooks :: "rule_context \<Rightarrow> bool" where
  "hasHooks ctx = testReactVersion ctx"

section \<open>The handlers\<close>

definition handleStatelessComponent :: "rule_context \<Rightarrow> function_node \<Rightarrow> state \<Rightarrow> state" where
  "handleStatelessComponent ctx node s =
     (let params = evalParams (f_params node) in
      case components_get ctx (block (getScope ctx (f_id node))) of
        None \<Rightarrow> s
      | Some SFCComponent \<Rightarrow>
          (let s1 = s\<lparr>queue := push params (queue s)\<rparr> in
           if (case slot params 0 of None \<Rightarrow> False | Some p \<Rightarrow> destructuring p)
              \<and> components_get ctx (f_id node) \<noteq> None \<and> configuration ctx = ''never''
           then emit (report_util (messages_get ''noDestructPropsInSFCArg'')
                        ''noDestructPropsInSFCArg'' (f_id node) None None) s1
           else if (case slot params 1 of None \<Rightarrow> False | Some p \<Rightarrow> destructuring p)
              \<and> components_get ctx (f_id node) \<noteq> None \<and> configuration ctx = ''never''
           then emit (report_util (messages_get ''noDestructContextInSFCArg'')
                        ''noDestructContextInSFCArg'' (f_id node) None None) s1
           else s1))"

definition handleStatelessComponentExit :: "rule_context \<Rightarrow> function_node \<Rightarrow> state \<Rightarrow> state" where
  "handleStatelessComponentExit ctx node s =
     (case components_get ctx (block (getScope ctx (f_id node))) of
        None \<Rightarrow> s
      | Some SFCComponent \<Rightarrow> s\<lparr>queue := pop (queue s)\<rparr>)"

definition handleSFCUsage :: "rule_context \<Rightarrow> member_node \<Rightarrow> state \<Rightarrow> state" where
  "handleSFCUsage ctx node s =
     (let propsName = propsName (queue s);
          contextName = contextName (queue s);
          isPropUsed =
            ((truthy_name propsName \<and> name_of (m_object node) = propsName)
              \<or> (truthy_name contextName \<and> name_of (m_object node) = contextName))
            \<and> \<not> isAssignmentLHS ctx (m_id node);
          s1 = (if isPropUsed \<and> configuration ctx = ''always''
                then emit (report_util (messages_get ''useDestructAssignment'')
                             ''useDestructAssignment'' (m_id node) (name_of (m_object node)) None) s
                else s);
          isContextUsed =
            (case name_of (m_object node) of None \<Rightarrow> False | Some n \<Rightarrow> n \<in> contextSet s1)
            \<and> \<not> isAssignmentLHS ctx (m_id node)
      in if isContextUsed \<and> configuration ctx = ''always''
         then emit (context_report (m_id node)
                      (''Must use destructuring '' @ template_str (name_of (m_object node)) @ '' assignment'')) s1
         else s1)"

text \<open>The loop over \<^verbatim>\<open>curNode.parent\<close>, on the list of ancestor types.\<close>

fun isInClassProperty :: "string list \<Rightarrow> bool" where
  "isInClassProperty [] = False"
| "isInClassProperty (ty # rest) =
     (if ty = ''ClassProperty'' \<or> ty = ''PropertyDefinition'' then True
      else isInClassProperty rest)"

definition class_field_name :: "string option \<Rightarrow> bool" where
  "class_field_name n = (n = Some ''props'' \<or> n = Some ''context'' \<or> n = Some ''state'')"

definition handleClassUsage :: "rule_context \<Rightarrow> member_node \<Rightarrow> state \<Rightarrow> state" where
  "handleClassUsage ctx node s =
     (let isPropUsed =
            (case m_object node of
               MemberExpression obj prop \<Rightarrow>
                 is_ThisExpression obj \<and> class_field_name (name_of prop)
                 \<and> \<not> isAssignmentLHS ctx (m_id node)
             | _ \<Rightarrow> False)
      in if isPropUsed \<and> configuration ctx = ''always''
            \<and> \<not> (ignoreClassFields ctx \<and> isInClassProperty (m_ancestors node))
         then emit (report_util (messages_get ''useDestructAssignment'')
                      ''useDestructAssignment'' (m_id node)
                      (case property_of (m_object node) of None \<Rightarrow> None | Some prop \<Rightarrow> name_of prop)
                      None) s
         else s)"

text \<open>
  The walk of \<^verbatim>\<open>MemberExpression\<close> up the scope chain, started with the scope of the
  node and the registry's answer for its block: it goes on while no component is found
  and the scope has an \<^verbatim>\<open>upper\<close> other than itself.
\<close>

fun findSFC :: "rule_context \<Rightarrow> scope \<Rightarrow> component option \<Rightarrow> component option" where
  "findSFC ctx (Scope b vs None) SFCComponent = SFCComponent"
| "findSFC ctx (Scope b vs (Some up)) SFCComponent =
     (if SFCComponent = None \<and> up \<noteq> Scope b vs (Some up)
      then findSFC ctx up (components_get ctx (block up))
      else SFCComponent)"

definition visit_MemberExpression :: "rule_context \<Rightarrow> member_node \<Rightarrow> state \<Rightarrow> state" where
  "visit_MemberExpression ctx node s =
     (let scope = getScope ctx (m_id node);
          SFCComponent = findSFC ctx scope (components_get ctx (block scope));
          s1 = (if SFCComponent \<noteq> None then handleSFCUsage ctx node s else s);
          classComponent = getParentComponent ctx (m_id node)
      in if classComponent \<noteq> None then handleClassUsage ctx node s1 else s1)"

text \<open>The \<^verbatim>\<open>fix\<close> callback of the destructureInSignature report.\<close>

definition signature_fix :: "rule_context \<Rightarrow> component \<Rightarrow> declarator_node \<Rightarrow> fix_op list option" where
  "signature_fix ctx SFCComponent node =
     (case slot (f_params (comp_node SFCComponent)) 0 of
        None \<Rightarrow> None
      | Some param \<Rightarrow>
          (let replaceRange =
                 (fst (prange param),
                  case typeAnnotation param of Some ta \<Rightarrow> fst ta | None \<Rightarrow> snd (prange param))
           in Some [ReplaceTextRange replaceRange (getText ctx (d_pattern node)),
                    Remove (d_parent node)]))"

definition visit_VariableDeclarator :: "rule_context \<Rightarrow> declarator_node \<Rightarrow> state \<Rightarrow> state" where
  "visit_VariableDeclarator ctx node s =
     (let classComponent = getParentComponent ctx (d_id node);
          SFCComponent = components_get ctx (block (getScope ctx (d_id node)));
          destructuring = (d_init node \<noteq> None \<and> ptype (d_pattern node) = ObjectPattern);
          identifier = (d_init node \<noteq> None
                        \<and> (case ptype (d_pattern node) of IdentifierPattern n \<Rightarrow> True | _ \<Rightarrow> False));
          init_name = (case d_init node of None \<Rightarrow> None | Some e \<Rightarrow> name_of e);
          init_callee = (case d_init node of None \<Rightarrow> None | Some e \<Rightarrow> callee_of e);
          callee_name = (case init_callee of None \<Rightarrow> None | Some c \<Rightarrow> name_of c);
          init_object = (case d_init node of None \<Rightarrow> None | Some e \<Rightarrow> object_of e);
          property_name = (case d_init node of None \<Rightarrow> None
                           | Some e \<Rightarrow> (case property_of e of None \<Rightarrow> None | Some p \<Rightarrow> name_of p));
          destructuringSFC = (destructuring \<and> init_name = Some ''props'');
          destructuringUseContext =
            (hasHooks ctx \<and> destructuring \<and> init_callee \<noteq> None \<and> callee_name = Some ''useContext'');
          assignUseContext =
            (hasHooks ctx \<and> identifier \<and> init_callee \<noteq> None \<and> callee_name = Some ''useContext'');
          destructuringClass =
            (destructuring
             \<and> (case init_object of None \<Rightarrow> False | Some obj \<Rightarrow> is_ThisExpression obj)
             \<and> class_field_name property_name);
          s1 = (if SFCComponent \<noteq> None \<and> assignUseContext
                then (case ptype (d_pattern node) of
                        IdentifierPattern n \<Rightarrow> s\<lparr>contextSet := insert n (contextSet s)\<rparr>
                      | _ \<Rightarrow> s)
                else s);
          s2 = (if SFCComponent \<noteq> None \<and> destructuringUseContext \<and> configuration ctx = ''never''
                then emit (context_report (d_id node)
                             (''Must never use destructuring '' @ template_str callee_name @ '' assignment'')) s1
                else s1);
          s3 = (if SFCComponent \<noteq> None \<and> destructuringSFC \<and> configuration ctx = ''never''
                then emit (report_util (messages_get ''noDestructAssignment'')
                             ''noDestructAssignment'' (d_id node) init_name None) s2
                else s2);
          s4 = (if classComponent \<noteq> None \<and> destructuringClass \<and> configuration ctx = ''never''
                   \<and> \<not> (ignoreClassFields ctx
                         \<and> (d_parent_type node = ''ClassProperty''
                            \<or> d_parent_type node = ''PropertyDefinition''))
                then emit (report_util (messages_get ''noDestructAssignment'')
                             ''noDestructAssignment'' (d_id node) property_name None) s3
                else s3)
      in case SFCComponent of
           None \<Rightarrow> s4
         | Some sfc \<Rightarrow>
             if destructuringSFC \<and> configuration ctx = ''always''
                \<and> destructureInSignature ctx = ''always'' \<and> init_name = Some ''props''
             then (case map_of (scope_set (getScope ctx (d_id node))) ''props'' of
                     None \<Rightarrow> s4
                   | Some scopeSetProps \<Rightarrow>
                       if length (references scopeSetProps) > 1 then s4
                       else emit (report_util (messages_get ''destructureInSignature'')
                                    ''destructureInSignature'' (d_id node) None
                                    (Some (signature_fix ctx sfc node))) s4)
             else s4)"

section \<open>The traversal\<close>

text \<open>
  The engine visits the tree depth first and calls the handler of a function node on
  entering it and its exit handler on leaving it; member accesses and declarators have
  an enter handler only. FunctionDeclaration, ArrowFunctionExpression and
  FunctionExpression share their two handlers.
\<close>

datatype event =
    Enter function_node
  | Exit function_node
  | Member member_node
  | Declarator declarator_node

fun step :: "rule_context \<Rightarrow> event \<Rightarrow> state \<Rightarrow> state" where
  "step ctx (Enter f) s = handleStatelessComponent ctx f s"
| "step ctx (Exit f) s = handleStatelessComponentExit ctx f s"
| "step ctx (Member m) s = visit_MemberExpression ctx m s"
| "step ctx (Declarator d) s = visit_VariableDeclarator ctx d s"

text \<open>
  The registry is not fixed for a traversal: a component can be registered, or lose its
  standing, at any node between two calls of the rule's handlers. So each event of a
  traversal comes with the answers the registry gives when its handler runs, for
  \<^verbatim>\<open>components.get\<close> and for \<^verbatim>\<open>utils.getParentComponent\<close>; the two reads of the
  registry for one function, at its enter and at its exit, may differ.
\<close>

type_synonym registry = "node_id \<Rightarrow> component option"

definition at_registry :: "rule_context \<Rightarrow> registry \<times> registry \<Rightarrow> rule_context" where
  "at_registry ctx r = ctx\<lparr>components_get := fst r, getParentComponent := snd r\<rparr>"

fun run :: "rule_context \<Rightarrow> ((registry \<times> registry) \<times> event) list \<Rightarrow> state \<Rightarrow> state" where
  "run ctx [] s = s"
| "run ctx ((r, e) # es) s = run ctx es (step (at_registry ctx r) e s)"

text \<open>The events of a traversal during which the registry answers as \<open>ctx\<close> does.\<close>

definition stable :: "rule_context \<Rightarrow> event list \<Rightarrow> ((registry \<times> registry) \<times> event) list" where
  "stable ctx es = map (\<lambda>e. ((components_get ctx, getParentComponent ctx), e)) es"

text \<open>The part of a syntax tree the rule looks at, and the events of its traversal.\<close>

datatype item =
    FunctionItem function_node "item list"
  | MemberItem member_node
  | DeclaratorItem declarator_node

fun events :: "item \<Rightarrow> event list" where
  "events (FunctionItem f body) = Enter f # concat (map events body) @ [Exit f]"
| "events (MemberItem m) = [Member m]"
| "events (DeclaratorItem d) = [Declarator d]"

definition events_list :: "item list \<Rightarrow> event list" where
  "events_list its = concat (map events its)"

text \<open>The reports a handler added to the sink, given the states before and after.\<close>

definition emitted :: "state \<Rightarrow> state \<Rightarrow> report list" where
  "emitted s s' = drop (length (reports s)) (reports s')"

section \<open>Notions the properties are stated with\<close>

text \<open>
  The test both function handlers make: the registry knows the block of the scope the
  engine gives for the node.
\<close>

definition tracked :: "rule_context \<Rightarrow> function_node \<Rightarrow> bool" where
  "tracked ctx f = (components_get ctx (block (getScope ctx (f_id f))) \<noteq> None)"

text \<open>
  The functions that are open after a sequence of events, innermost first: entering a
  function opens it, leaving one closes the innermost. This follows the brackets of the
  traversal and does not look at the rule's state.
\<close>

fun open_functions :: "function_node list \<Rightarrow> event list \<Rightarrow> function_node list" where
  "open_functions os [] = os"
| "open_functions os (Enter f # es) = open_functions (f # os) es"
| "open_functions os (Exit f # es) = open_functions (case os of [] \<Rightarrow> [] | g # rest \<Rightarrow> rest) es"
| "open_functions os (Member m # es) = open_functions os es"
| "open_functions os (Declarator d # es) = open_functions os es"

definition frames :: "rule_context \<Rightarrow> function_node list \<Rightarrow> descriptor list list" where
  "frames ctx os = map (\<lambda>f. evalParams (f_params f)) (filter (tracked ctx) os)"

text \<open>
  The specification's wording of the slot test, kept apart from \<open>props_pred\<close> and
  \<open>context_pred\<close> of the code: slot \<open>k\<close> of a frame is a plain identifier, not
  destructuring, with the name \<open>n\<close>.
\<close>

definition spec_named_slot :: "nat \<Rightarrow> descriptor list \<Rightarrow> string \<Rightarrow> bool" where
  "spec_named_slot k frame n =
     (case slot frame k of None \<Rightarrow> False
      | Some d \<Rightarrow> \<not> destructuring d \<and> name d = Some n \<and> n \<noteq> [])"

text \<open>
  The specification's wording of the binding of a name: the variable of the nearest
  enclosing scope that declares it. The code does not resolve names this way; it asks
  the current scope's own \<^verbatim>\<open>set\<close> only.
\<close>

fun spec_binding :: "string \<Rightarrow> scope \<Rightarrow> variable option" where
  "spec_binding x (Scope b vs up) =
     (case map_of vs x of
        Some v \<Rightarrow> Some v
      | None \<Rightarrow> (case up of None \<Rightarrow> None | Some u \<Rightarrow> spec_binding x u))"

text \<open>
  The scopes from a scope outward, the scope itself first: the chain the member handler
  walks.
\<close>

fun scope_chain :: "scope \<Rightarrow> scope list" where
  "scope_chain (Scope b vs None) = [Scope b vs None]"
| "scope_chain (Scope b vs (Some up)) = Scope b vs (Some up) # scope_chain up"

text \<open>
  Modelled from the spec: the helper \<^verbatim>\<open>isAssignmentLHS\<close> of util/ast, which the rule
  imports and which is not in the rule's file. Of the cases the specification lists for
  an assignment target, the helper is given the one its name states, the left-hand side
  of an assignment expression: the node has a parent, the parent is an
  AssignmentExpression and the node is its \<^verbatim>\<open>left\<close>. The handlers read the answer from
  the context; a theorem about the helper says that the context answers as it does.
\<close>

definition util_isAssignmentLHS :: "member_node \<Rightarrow> bool" where
  "util_isAssignmentLHS node =
     (case m_ancestors node of
        [] \<Rightarrow> False
      | ty # rest \<Rightarrow> ty = ''AssignmentExpression'' \<and> m_role node = ''left'')"


text \<open>All reports of a list carry a message key.\<close>

definition keyed :: "report list \<Rightarrow> bool" where
  "keyed rs = list_all (\<lambda>r. messageId r \<noteq> None) rs"

section \<open>Example programs\<close>

text \<open>
  A context for the examples: the mode, the options object, the answer of the version
  test, the registered components and the scope of each node. No node is an assignment
  target and none lies in a class component unless an example says so.
\<close>

definition example_context ::
  "string \<Rightarrow> rule_options option \<Rightarrow> bool \<Rightarrow> function_node list \<Rightarrow> (node_id \<Rightarrow> scope)
     \<Rightarrow> rule_context" where
  "example_context mode opts hooks comps scopes =
     \<lparr>options0 = Some mode, options1 = opts, getScope = scopes,
      components_get =
        (\<lambda>n. case find (\<lambda>f. f_id f = n) comps of None \<Rightarrow> None
              | Some f \<Rightarrow> Some \<lparr>comp_node = f\<rparr>),
      getParentComponent = (\<lambda>n. None),
      isAssignmentLHS = (\<lambda>n. False),
      testReactVersion = hooks,
      getText = (\<lambda>p. ''{x}'')\<rparr>"

definition module_scope :: scope where
  "module_scope = Scope 0 [] None"

definition props_param :: pattern where
  "props_param = \<lparr>ptype = IdentifierPattern ''props'', prange = (14, 19), typeAnnotation = None\<rparr>"

definition object_param :: pattern where
  "object_param = \<lparr>ptype = ObjectPattern, prange = (14, 17), typeAnnotation = None\<rparr>"

definition object_param2 :: pattern where
  "object_param2 = \<lparr>ptype = ObjectPattern, prange = (19, 22), typeAnnotation = None\<rparr>"

text \<open>\<^verbatim>\<open>function Comp(props) { return props.x; }\<close>\<close>

definition Comp_props :: function_node where
  "Comp_props = \<lparr>f_id = 1, f_params = [props_param]\<rparr>"

definition Comp_props_scope :: scope where
  "Comp_props_scope = Scope 1 [(''props'', \<lparr>references = [2]\<rparr>)] (Some module_scope)"

definition props_x :: member_node where
  "props_x = \<lparr>m_id = 3, m_object = Identifier ''props'', m_property = Identifier ''x'',
              m_ancestors = [''ReturnStatement'', ''BlockStatement'', ''FunctionDeclaration'',
                             ''Program''],
              m_role = ''argument''\<rparr>"

definition always_context :: rule_context where
  "always_context = example_context ''always'' None True [Comp_props] (\<lambda>n. Comp_props_scope)"




text \<open>
  \<^verbatim>\<open>function Comp(props) { return items.map(() => props.x); }\<close>: the access lies in the
  scope of the arrow function (node 30), which is not a component; the scope of Comp is
  the next one outward. Nodes from 30 on lie in the arrow function.
\<close>

definition inner_function :: function_node where
  "inner_function = \<lparr>f_id = 30, f_params = []\<rparr>"

definition inner_scope :: scope where
  "inner_scope = Scope 30 [] (Some Comp_props_scope)"

definition props_x_nested :: member_node where
  "props_x_nested =
     \<lparr>m_id = 31, m_object = Identifier ''props'', m_property = Identifier ''x'',
      m_ancestors = [''ArrowFunctionExpression'', ''CallExpression'', ''ReturnStatement'',
                     ''BlockStatement'', ''FunctionDeclaration'', ''Program''],
      m_role = ''body''\<rparr>"

definition nested_context :: rule_context where
  "nested_context =
     example_context ''always'' None True [Comp_props]
       (\<lambda>n. if n < 30 then Comp_props_scope else inner_scope)"

text \<open>
  \<^verbatim>\<open>function Outer(props) { function helper() { ... } return props.x; }\<close>, with Outer as
  node 1 and helper as node 30, visited while the registry is being filled: it knows
  Outer from the start and helper only from a node inside helper on, that is after the
  enter handler of helper has run and before its exit handler runs.
\<close>

definition registry_before :: "registry \<times> registry" where
  "registry_before =
     ((\<lambda>n. if n = 1 then Some \<lparr>comp_node = Comp_props\<rparr> else None), (\<lambda>n. None))"

definition registry_after :: "registry \<times> registry" where
  "registry_after =
     ((\<lambda>n. if n = 1 then Some \<lparr>comp_node = Comp_props\<rparr>
            else if n = 30 then Some \<lparr>comp_node = inner_function\<rparr> else None),
      (\<lambda>n. None))"

text \<open>
  \<^verbatim>\<open>function Comp({a}, {b}) { ... }\<close>, \<^verbatim>\<open>function Comp(props, {b}) { ... }\<close> and
  \<^verbatim>\<open>function Comp({a}) { ... }\<close> under the mode never.
\<close>

definition Comp_both :: function_node where
  "Comp_both = \<lparr>f_id = 1, f_params = [object_param, object_param2]\<rparr>"

definition Comp_second :: function_node where
  "Comp_second = \<lparr>f_id = 1, f_params = [props_param, object_param2]\<rparr>"

definition Comp_first :: function_node where
  "Comp_first = \<lparr>f_id = 1, f_params = [object_param]\<rparr>"

definition never_context :: "function_node \<Rightarrow> rule_context" where
  "never_context f = example_context ''never'' None True [f] (\<lambda>n. Scope 1 [] (Some module_scope))"

text \<open>
  \<^verbatim>\<open>function Comp(props) { const {x} = props; return x + x; }\<close> with
  \<^verbatim>\<open>destructureInSignature: 'always'\<close>: the declarator is the only reference to
  \<^verbatim>\<open>props\<close>.
\<close>

definition signature_options :: rule_options where
  "signature_options = \<lparr>opt_ignoreClassFields = None, opt_destructureInSignature = Some ''always''\<rparr>"

definition x_of_props :: declarator_node where
  "x_of_props =
     \<lparr>d_id = 5,
      d_pattern = \<lparr>ptype = ObjectPattern, prange = (29, 32), typeAnnotation = None\<rparr>,
      d_init = Some (Identifier ''props''), d_parent = 4, d_parent_type = ''VariableDeclaration''\<rparr>"

definition signature_context :: rule_context where
  "signature_context =
     example_context ''always'' (Some signature_options) True [Comp_props]
       (\<lambda>n. Scope 1 [(''props'', \<lparr>references = [6]\<rparr>), (''x'', \<lparr>references = [7, 8, 9]\<rparr>)]
               (Some module_scope))"

text \<open>
  \<^verbatim>\<open>function Comp() { let props; const {x} = props; return x + x; }\<close>: the component has
  no parameter.
\<close>

definition Comp_none :: function_node where
  "Comp_none = \<lparr>f_id = 1, f_params = []\<rparr>"

definition local_props_context :: rule_context where
  "local_props_context =
     example_context ''always'' (Some signature_options) True [Comp_none]
       (\<lambda>n. Scope 1 [(''props'', \<lparr>references = [6]\<rparr>), (''x'', \<lparr>references = [7, 8, 9]\<rparr>)]
               (Some module_scope))"

text \<open>
  \<^verbatim>\<open>function Outer(props) { return function Comp() { const {x} = props; return x + x; }; }\<close>:
  \<^verbatim>\<open>props\<close> is a variable of the scope of Outer (node 10), with the declarator as its
  one reference; the scope of Comp declares \<^verbatim>\<open>x\<close> only.
\<close>

definition outer_props_context :: rule_context where
  "outer_props_context =
     example_context ''always'' (Some signature_options) True [Comp_none]
       (\<lambda>n. Scope 1 [(''x'', \<lparr>references = [7, 8, 9]\<rparr>)]
               (Some (Scope 10 [(''props'', \<lparr>references = [6]\<rparr>)] (Some module_scope))))"

text \<open>
  \<^verbatim>\<open>class C extends React.Component { render() { return this.props.x; } }\<close> and
  \<^verbatim>\<open>class C extends React.Component { y = this.props.x; }\<close>.
\<close>

definition class_context :: "rule_options option \<Rightarrow> rule_context" where
  "class_context opts =
     (example_context ''always'' opts True [] (\<lambda>n. Scope 11 [] (Some module_scope)))
       \<lparr>getParentComponent := (\<lambda>n. Some \<lparr>comp_node = \<lparr>f_id = 10, f_params = []\<rparr>\<rparr>)\<rparr>"

definition this_props_x_render :: member_node where
  "this_props_x_render =
     \<lparr>m_id = 12, m_object = MemberExpression ThisExpression (Identifier ''props''),
      m_property = Identifier ''x'',
      m_ancestors = [''ReturnStatement'', ''BlockStatement'', ''FunctionExpression'',
                     ''MethodDefinition'', ''ClassBody'', ''ClassDeclaration'', ''Program''],
      m_role = ''argument''\<rparr>"

definition this_props_x_field :: member_node where
  "this_props_x_field =
     \<lparr>m_id = 12, m_object = MemberExpression ThisExpression (Identifier ''props''),
      m_property = Identifier ''x'',
      m_ancestors = [''PropertyDefinition'', ''ClassBody'', ''ClassDeclaration'', ''Program''],
      m_role = ''value''\<rparr>"

definition ignore_fields_options :: rule_options where
  "ignore_fields_options = \<lparr>opt_ignoreClassFields = Some True, opt_destructureInSignature = None\<rparr>"

text \<open>
  \<^verbatim>\<open>function A() { const foo = useContext(Ctx); return <p>{foo.value}</p>; }\<close> followed
  by \<^verbatim>\<open>function B(foo) { return <p>{foo.value}</p>; }\<close>, and in the mode never
  \<^verbatim>\<open>function A() { const {x} = useContext(Ctx); return <p>{x}</p>; }\<close>. Nodes from 20 on
  lie in B.
\<close>

definition fun_A :: function_node where
  "fun_A = \<lparr>f_id = 1, f_params = []\<rparr>"

definition fun_B :: function_node where
  "fun_B = \<lparr>f_id = 20,
            f_params = [\<lparr>ptype = IdentifierPattern ''foo'', prange = (80, 83), typeAnnotation = None\<rparr>]\<rparr>"

definition foo_useContext :: declarator_node where
  "foo_useContext =
     \<lparr>d_id = 3,
      d_pattern = \<lparr>ptype = IdentifierPattern ''foo'', prange = (21, 24), typeAnnotation = None\<rparr>,
      d_init = Some (CallExpression (Identifier ''useContext'') [Identifier ''Ctx'']),
      d_parent = 2, d_parent_type = ''VariableDeclaration''\<rparr>"

definition x_useContext :: declarator_node where
  "x_useContext =
     \<lparr>d_id = 3,
      d_pattern = \<lparr>ptype = ObjectPattern, prange = (21, 24), typeAnnotation = None\<rparr>,
      d_init = Some (CallExpression (Identifier ''useContext'') [Identifier ''Ctx'']),
      d_parent = 2, d_parent_type = ''VariableDeclaration''\<rparr>"

definition foo_value_A :: member_node where
  "foo_value_A = \<lparr>m_id = 5, m_object = Identifier ''foo'', m_property = Identifier ''value'',
                  m_ancestors = [''JSXExpressionContainer'', ''JSXElement'', ''ReturnStatement'',
                                 ''BlockStatement'', ''FunctionDeclaration'', ''Program''],
                  m_role = ''expression''\<rparr>"

definition foo_value_B :: member_node where
  "foo_value_B = \<lparr>m_id = 22, m_object = Identifier ''foo'', m_property = Identifier ''value'',
                  m_ancestors = [''JSXExpressionContainer'', ''JSXElement'', ''ReturnStatement'',
                                 ''BlockStatement'', ''FunctionDeclaration'', ''Program''],
                  m_role = ''expression''\<rparr>"

text \<open>
  \<^verbatim>\<open>function B(foo) { foo.value = 1; return <p/>; }\<close> after the same function A: the
  access in B is the left-hand side of an assignment, and the context answers so.
\<close>

definition foo_value_B_assign :: member_node where
  "foo_value_B_assign =
     \<lparr>m_id = 24, m_object = Identifier ''foo'', m_property = Identifier ''value'',
      m_ancestors = [''AssignmentExpression'', ''ExpressionStatement'', ''BlockStatement'',
                     ''FunctionDeclaration'', ''Program''],
      m_role = ''left''\<rparr>"

definition hooks_context :: "string \<Rightarrow> bool \<Rightarrow> rule_context" where
  "hooks_context mode hooks =
     example_context mode None hooks [fun_A, fun_B]
       (\<lambda>n. if n < 20 then Scope 1 [(''foo'', \<lparr>references = [4, 6]\<rparr>)] (Some module_scope)
             else Scope 20 [(''foo'', \<lparr>references = [23]\<rparr>)] (Some module_scope))"

definition hooks_assign_context :: rule_context where
  "hooks_assign_context = (hooks_context ''always'' True)\<lparr>isAssignmentLHS := (\<lambda>n. n = 24)\<rparr>"

section \<open>Basic facts about the handlers\<close>

lemma reports_emit: "reports (emit r s) = reports s @ [r]"
  by (simp add: emit_def)

lemma queue_emit: "queue (emit r s) = queue s"
  by (simp add: emit_def)

lemma contextSet_emit: "contextSet (emit r s) = contextSet s"
  by (simp add: emit_def)

lemma emitted_same: "emitted s s = []"
  by (simp add: emitted_def)

lemma emitted_emit: "emitted s (emit r s) = [r]"
  by (simp add: emitted_def reports_emit)

lemma emitted_emit2: "emitted s (emit r' (emit r s)) = [r, r']"
  by (simp add: emitted_def reports_emit)

lemma queue_enter:
  "queue (handleStatelessComponent ctx f s) =
     (if tracked ctx f then evalParams (f_params f) # queue s else queue s)"
  by (simp add: handleStatelessComponent_def tracked_def Let_def push_def queue_emit
           split: option.splits)

lemma queue_exit:
  "queue (handleStatelessComponentExit ctx f s) =
     (if tracked ctx f then pop (queue s) else queue s)"
  by (simp add: handleStatelessComponentExit_def tracked_def split: option.splits)

lemma queue_handleSFCUsage: "queue (handleSFCUsage ctx m s) = queue s"
  by (simp add: handleSFCUsage_def Let_def queue_emit)

lemma queue_handleClassUsage: "queue (handleClassUsage ctx m s) = queue s"
  by (simp add: handleClassUsage_def Let_def queue_emit)

lemma queue_member: "queue (visit_MemberExpression ctx m s) = queue s"
  by (simp add: visit_MemberExpression_def Let_def queue_handleSFCUsage queue_handleClassUsage)

lemma queue_declarator: "queue (visit_VariableDeclarator ctx d s) = queue s"
  by (simp add: visit_VariableDeclarator_def Let_def queue_emit
           split: option.splits pattern_type.splits)

lemma at_registry_simps [simp]:
  "components_get (at_registry ctx r) = fst r"
  "getParentComponent (at_registry ctx r) = snd r"
  "getScope (at_registry ctx r) = getScope ctx"
  "isAssignmentLHS (at_registry ctx r) = isAssignmentLHS ctx"
  "getText (at_registry ctx r) = getText ctx"
  "configuration (at_registry ctx r) = configuration ctx"
  "ignoreClassFields (at_registry ctx r) = ignoreClassFields ctx"
  "destructureInSignature (at_registry ctx r) = destructureInSignature ctx"
  "hasHooks (at_registry ctx r) = hasHooks ctx"
  "testReactVersion (at_registry ctx r) = testReactVersion ctx"
  "options0 (at_registry ctx r) = options0 ctx"
  "options1 (at_registry ctx r) = options1 ctx"
  by (simp_all add: at_registry_def configuration_def ignoreClassFields_def
        destructureInSignature_def hasHooks_def)

lemma at_registry_self [simp]:
  "at_registry ctx (components_get ctx, getParentComponent ctx) = ctx"
  by (simp add: at_registry_def)

lemma run_append: "run ctx (a @ b) s = run ctx b (run ctx a s)"
  by (induction a arbitrary: s) auto

lemma stable_simps [simp]:
  "stable ctx [] = []"
  "stable ctx (e # es) = ((components_get ctx, getParentComponent ctx), e) # stable ctx es"
  "stable ctx (a @ b) = stable ctx a @ stable ctx b"
  "map snd (stable ctx es) = es"
  by (simp_all add: stable_def comp_def)

text \<open>How a handler call changes the stack: by the answer of its test only.\<close>

lemma queue_step:
  "queue (step c e s) =
     (case e of
        Enter f \<Rightarrow> if tracked c f then evalParams (f_params f) # queue s else queue s
      | Exit f \<Rightarrow> if tracked c f then pop (queue s) else queue s
      | Member m \<Rightarrow> queue s
      | Declarator d \<Rightarrow> queue s)"
  by (cases e) (simp_all add: queue_enter queue_exit queue_member queue_declarator)

lemma open_functions_append:
  "open_functions os (a @ b) = open_functions (open_functions os a) b"
  by (induction os a rule: open_functions.induct) simp_all

lemma open_functions_events: "open_functions os (events it) = os"
proof (induction it arbitrary: os)
  case (FunctionItem f body)
  have body: "open_functions os' (concat (map events body)) = os'" for os'
    using FunctionItem.IH
  proof (induction body arbitrary: os')
    case Nil
    show ?case by simp
  next
    case (Cons x xs)
    then show ?case by (simp add: open_functions_append)
  qed
  show ?case by (simp add: open_functions_append body)
next
  case (MemberItem m)
  show ?case by simp
next
  case (DeclaratorItem d)
  show ?case by simp
qed

lemma open_functions_events_list: "open_functions os (events_list its) = os"
  unfolding events_list_def
  by (induction its arbitrary: os) (simp_all add: open_functions_append open_functions_events)

text \<open>The invariant of a traversal during which the registry does not change: the queue
  holds the frames of the open functions that pass the test.\<close>

lemma queue_prefix_concat:
  "queue s = frames ctx os @ base \<Longrightarrow> prefix p (concat (map events its))
     \<Longrightarrow> (\<And>x s' os' p'. x \<in> set its \<Longrightarrow> queue s' = frames ctx os' @ base
            \<Longrightarrow> prefix p' (events x)
            \<Longrightarrow> queue (run ctx (stable ctx p') s') = frames ctx (open_functions os' p') @ base)
     \<Longrightarrow> queue (run ctx (stable ctx p) s) = frames ctx (open_functions os p) @ base"
proof (induction its arbitrary: s os p)
  case Nil
  then show ?case by simp
next
  case (Cons x xs)
  have hd_item: "queue s' = frames ctx os' @ base \<Longrightarrow> prefix p' (events x)
      \<Longrightarrow> queue (run ctx (stable ctx p') s') = frames ctx (open_functions os' p') @ base" for s' os' p'
    using Cons.prems(3)[of x s' os' p'] by simp
  have tl_items: "y \<in> set xs \<Longrightarrow> queue s' = frames ctx os' @ base \<Longrightarrow> prefix p' (events y)
      \<Longrightarrow> queue (run ctx (stable ctx p') s') = frames ctx (open_functions os' p') @ base" for y s' os' p'
    using Cons.prems(3)[of y s' os' p'] by simp
  from Cons.prems(2) have "prefix p (events x @ concat (map events xs))" by simp
  then consider (a) "prefix p (events x)"
    | (b) us where "p = events x @ us" "prefix us (concat (map events xs))"
    by (auto simp add: prefix_append)
  then show ?case
  proof cases
    case a
    then show ?thesis using hd_item[OF Cons.prems(1)] by simp
  next
    case b
    have full: "queue (run ctx (stable ctx (events x)) s) = frames ctx os @ base"
      using hd_item[OF Cons.prems(1), of "events x"] by (simp add: open_functions_events)
    have "queue (run ctx (stable ctx us) (run ctx (stable ctx (events x)) s)) = frames ctx (open_functions os us) @ base"
      using Cons.IH[OF full b(2)] tl_items by blast
    then show ?thesis using b(1)
      by (simp add: run_append open_functions_append open_functions_events)
  qed
qed

lemma queue_prefix_item:
  "queue s = frames ctx os @ base \<Longrightarrow> prefix p (events it)
     \<Longrightarrow> queue (run ctx (stable ctx p) s) = frames ctx (open_functions os p) @ base"
proof (induction it arbitrary: os s p)
  case (FunctionItem f body)
  have body: "queue s' = frames ctx os' @ base \<Longrightarrow> prefix p' (concat (map events body))
     \<Longrightarrow> queue (run ctx (stable ctx p') s') = frames ctx (open_functions os' p') @ base" for s' os' p'
    using queue_prefix_concat[of s' ctx os' base p' body] FunctionItem.IH by blast
  show ?case
  proof (cases p)
    case Nil
    then show ?thesis using FunctionItem.prems(1) by simp
  next
    case (Cons e p')
    with FunctionItem.prems(2) have e: "e = Enter f"
      and p': "prefix p' (concat (map events body) @ [Exit f])" by simp_all
    let ?s1 = "step ctx (Enter f) s"
    have s1: "queue ?s1 = frames ctx (f # os) @ base"
      using FunctionItem.prems(1) by (simp add: queue_enter frames_def)
    from p' consider (a) "prefix p' (concat (map events body))"
      | (b) us where "p' = concat (map events body) @ us" "prefix us [Exit f]"
      by (auto simp add: prefix_append)
    then show ?thesis
    proof cases
      case a
      then show ?thesis using body[OF s1 a] Cons e by simp
    next
      case b
      let ?s2 = "run ctx (stable ctx (concat (map events body))) ?s1"
      have ob: "open_functions (f # os) (concat (map events body)) = f # os"
        using open_functions_events_list[of "f # os" body] by (simp add: events_list_def)
      have s2: "queue ?s2 = frames ctx (f # os) @ base"
        using body[OF s1, of "concat (map events body)"] ob by simp
      from b(2) have "us = [] \<or> us = [Exit f]" by (auto simp add: prefix_Cons)
      then show ?thesis
      proof
        assume "us = []"
        then show ?thesis using s2 ob b(1) Cons e by (simp add: run_append open_functions_append)
      next
        assume us: "us = [Exit f]"
        have "queue (step ctx (Exit f) ?s2) = frames ctx os @ base"
          using s2 by (simp add: queue_exit frames_def pop_def)
        then show ?thesis using ob b(1) us Cons e
          by (simp add: run_append open_functions_append)
      qed
    qed
  qed
next
  case (MemberItem m)
  from MemberItem.prems(2) have "p = [] \<or> p = [Member m]" by (auto simp add: prefix_Cons)
  then show ?case using MemberItem.prems(1) by (auto simp add: queue_member)
next
  case (DeclaratorItem d)
  from DeclaratorItem.prems(2) have "p = [] \<or> p = [Declarator d]" by (auto simp add: prefix_Cons)
  then show ?case using DeclaratorItem.prems(1) by (auto simp add: queue_declarator)
qed

lemma queue_prefix_list:
  "queue s = frames ctx os @ base \<Longrightarrow> prefix p (events_list its)
     \<Longrightarrow> queue (run ctx (stable ctx p) s) = frames ctx (open_functions os p) @ base"
proof (induction its arbitrary: s os p)
  case Nil
  then show ?case by (simp add: events_list_def)
next
  case (Cons x xs)
  from Cons.prems(2) have "prefix p (events x @ events_list xs)" by (simp add: events_list_def)
  then consider (a) "prefix p (events x)"
    | (b) us where "p = events x @ us" "prefix us (events_list xs)"
    by (auto simp add: prefix_append)
  then show ?case
  proof cases
    case a
    then show ?thesis using queue_prefix_item[OF Cons.prems(1) a] by simp
  next
    case b
    have full: "queue (run ctx (stable ctx (events x)) s) = frames ctx os @ base"
      using queue_prefix_item[OF Cons.prems(1), of "events x" x]
      by (simp add: open_functions_events)
    show ?thesis using Cons.IH[OF full b(2)] b(1)
      by (simp add: run_append open_functions_append open_functions_events)
  qed
qed

text \<open>
  When the test for a function answers at each of its handler calls as \<open>ctx\<close> does,
  the stack goes as in a traversal with the registry of \<open>ctx\<close> throughout.
\<close>

lemma queue_run_agree:
  "\<forall>(r, e)\<in>set tes. \<forall>f. (e = Enter f \<or> e = Exit f) \<longrightarrow>
        tracked (at_registry ctx r) f = tracked ctx f
     \<Longrightarrow> queue s = queue s'
     \<Longrightarrow> queue (run ctx tes s) = queue (run ctx (stable ctx (map snd tes)) s')"
proof (induction tes arbitrary: s s')
  case Nil
  then show ?case by simp
next
  case (Cons te tes)
  obtain r e where te: "te = (r, e)" by (cases te)
  have agree: "\<And>f. e = Enter f \<or> e = Exit f \<Longrightarrow> tracked (at_registry ctx r) f = tracked ctx f"
    using Cons.prems(1) te by auto
  have q: "queue (step (at_registry ctx r) e s) = queue (step ctx e s')"
    using agree Cons.prems(2) by (simp add: queue_step split: event.splits)
  have rest: "\<forall>(r, e)\<in>set tes. \<forall>f. (e = Enter f \<or> e = Exit f) \<longrightarrow>
        tracked (at_registry ctx r) f = tracked ctx f"
    using Cons.prems(1) by simp
  show ?case using Cons.IH[OF rest q] te by simp
qed

text \<open>
  So the stack is balanced as long as the two tests agree: after any prefix of a
  traversal its depth is the depth it started with plus the number of open functions
  that pass the test.
\<close>

lemma balance_when_tests_agree:
  assumes "\<forall>(r, e)\<in>set tes. \<forall>f. (e = Enter f \<or> e = Exit f) \<longrightarrow>
             tracked (at_registry ctx r) f = tracked ctx f"
      and "prefix (map snd tes) (events_list its)"
  shows "length (queue (run ctx tes s))
           = length (filter (tracked ctx) (open_functions [] (map snd tes))) + length (queue s)"
proof -
  have "queue (run ctx tes s) = queue (run ctx (stable ctx (map snd tes)) s)"
    using queue_run_agree[OF assms(1), of s s] by simp
  also have "\<dots> = frames ctx (open_functions [] (map snd tes)) @ queue s"
    using queue_prefix_list[of s ctx "[]" "queue s" "map snd tes" its] assms(2)
    by (simp add: frames_def)
  finally show ?thesis by (simp add: frames_def)
qed

lemma contextSet_enter: "contextSet (handleStatelessComponent ctx f s) = contextSet s"
  by (simp add: handleStatelessComponent_def Let_def contextSet_emit split: option.splits)

lemma contextSet_exit: "contextSet (handleStatelessComponentExit ctx f s) = contextSet s"
  by (simp add: handleStatelessComponentExit_def split: option.splits)

lemma contextSet_handleSFCUsage: "contextSet (handleSFCUsage ctx m s) = contextSet s"
  by (simp add: handleSFCUsage_def Let_def contextSet_emit)

lemma contextSet_handleClassUsage: "contextSet (handleClassUsage ctx m s) = contextSet s"
  by (simp add: handleClassUsage_def Let_def contextSet_emit)

lemma contextSet_member: "contextSet (visit_MemberExpression ctx m s) = contextSet s"
  by (simp add: visit_MemberExpression_def Let_def contextSet_handleSFCUsage
        contextSet_handleClassUsage)

text \<open>What a declarator does to the set, whatever it reports.\<close>

lemma contextSet_declarator:
  "contextSet (visit_VariableDeclarator ctx d s) =
     (if components_get ctx (block (getScope ctx (d_id d))) \<noteq> None \<and> hasHooks ctx
         \<and> (\<exists>c. (case d_init d of None \<Rightarrow> None | Some e \<Rightarrow> callee_of e) = Some c
                  \<and> name_of c = Some ''useContext'')
      then (case ptype (d_pattern d) of
              IdentifierPattern n \<Rightarrow> insert n (contextSet s)
            | _ \<Rightarrow> contextSet s)
      else contextSet s)"
  by (auto simp add: visit_VariableDeclarator_def Let_def contextSet_emit
        split: option.splits pattern_type.splits)

lemma contextSet_step_mono: "contextSet s \<subseteq> contextSet (step ctx e s)"
  by (cases e)
     (auto simp add: contextSet_enter contextSet_exit contextSet_member contextSet_declarator
        split: pattern_type.splits)

lemma contextSet_run_mono: "contextSet s \<subseteq> contextSet (run ctx es s)"
proof (induction es arbitrary: s)
  case Nil
  show ?case by simp
next
  case (Cons te es)
  obtain r e where te: "te = (r, e)" by (cases te)
  have "contextSet s \<subseteq> contextSet (step (at_registry ctx r) e s)"
    by (rule contextSet_step_mono)
  also have "\<dots> \<subseteq> contextSet (run ctx es (step (at_registry ctx r) e s))" by (rule Cons.IH)
  finally show ?case using te by simp
qed

lemma contextSet_step_nohooks:
  "\<not> hasHooks ctx \<Longrightarrow> contextSet (step ctx e s) = contextSet s"
  by (cases e)
     (simp_all add: contextSet_enter contextSet_exit contextSet_member contextSet_declarator)

lemma contextSet_run_nohooks:
  "\<not> hasHooks ctx \<Longrightarrow> contextSet (run ctx es s) = contextSet s"
  by (induction es arbitrary: s) (auto simp add: contextSet_step_nohooks)


section \<open>The scope stack\<close>

lemma props_pred_iff: "props_pred f \<longleftrightarrow> (\<exists>m. spec_named_slot 0 f m)"
  by (auto simp add: props_pred_def spec_named_slot_def truthy_name_def split: option.splits)

lemma context_pred_iff: "context_pred f \<longleftrightarrow> (\<exists>m. spec_named_slot 1 f m)"
  by (auto simp add: context_pred_def spec_named_slot_def truthy_name_def split: option.splits)

lemma find_name_Some:
  assumes P: "\<And>f. P f \<longleftrightarrow> (\<exists>m. spec_named_slot k f m)"
  shows "(case find P q of None \<Rightarrow> None
          | Some found \<Rightarrow> (case slot found k of None \<Rightarrow> None | Some d \<Rightarrow> name d)) = Some n
     \<longleftrightarrow> (\<exists>i<length q. spec_named_slot k (q ! i) n \<and> (\<forall>j<i. \<forall>m. \<not> spec_named_slot k (q ! j) m))"
proof (induction q)
  case Nil
  show ?case by simp
next
  case (Cons f q)
  show ?case
  proof (cases "P f")
    case True
    then obtain m where m: "spec_named_slot k f m" using P by blast
    have lhs: "(case find P (f # q) of None \<Rightarrow> None
          | Some found \<Rightarrow> (case slot found k of None \<Rightarrow> None | Some d \<Rightarrow> name d)) = Some m"
      using True m by (simp add: spec_named_slot_def split: option.splits)
    have uniq: "\<And>n'. spec_named_slot k f n' \<Longrightarrow> n' = m"
      using m by (auto simp add: spec_named_slot_def split: option.splits)
    show ?thesis
    proof
      assume "(case find P (f # q) of None \<Rightarrow> None
          | Some found \<Rightarrow> (case slot found k of None \<Rightarrow> None | Some d \<Rightarrow> name d)) = Some n"
      with lhs have "n = m" by simp
      with m have "spec_named_slot k ((f # q) ! 0) n \<and> (\<forall>j<0. \<forall>m. \<not> spec_named_slot k ((f # q) ! j) m)"
        by simp
      then show "\<exists>i<length (f # q). spec_named_slot k ((f # q) ! i) n
                   \<and> (\<forall>j<i. \<forall>m. \<not> spec_named_slot k ((f # q) ! j) m)"
        by (intro exI[of _ 0]) simp
    next
      assume "\<exists>i<length (f # q). spec_named_slot k ((f # q) ! i) n
                   \<and> (\<forall>j<i. \<forall>m. \<not> spec_named_slot k ((f # q) ! j) m)"
      then obtain i where i: "i < length (f # q)" "spec_named_slot k ((f # q) ! i) n"
          "\<forall>j<i. \<forall>m. \<not> spec_named_slot k ((f # q) ! j) m" by blast
      have "i = 0"
      proof (rule ccontr)
        assume "i \<noteq> 0"
        then have "0 < i" by simp
        with i(3) have "\<not> spec_named_slot k ((f # q) ! 0) m" by blast
        with m show False by simp
      qed
      with i(2) have "n = m" using uniq by simp
      with lhs show "(case find P (f # q) of None \<Rightarrow> None
          | Some found \<Rightarrow> (case slot found k of None \<Rightarrow> None | Some d \<Rightarrow> name d)) = Some n"
        by simp
    qed
  next
    case False
    then have nf: "\<And>m. \<not> spec_named_slot k f m" using P by blast
    have "(\<exists>i<length (f # q). spec_named_slot k ((f # q) ! i) n
             \<and> (\<forall>j<i. \<forall>m. \<not> spec_named_slot k ((f # q) ! j) m))
       \<longleftrightarrow> (\<exists>i<length q. spec_named_slot k (q ! i) n
             \<and> (\<forall>j<i. \<forall>m. \<not> spec_named_slot k (q ! j) m))" (is "?L \<longleftrightarrow> ?R")
    proof
      assume ?L
      then obtain i where i: "i < length (f # q)" "spec_named_slot k ((f # q) ! i) n"
          "\<forall>j<i. \<forall>m. \<not> spec_named_slot k ((f # q) ! j) m" by blast
      from i(2) nf have "i \<noteq> 0" by (cases i) auto
      then obtain i' where i': "i = Suc i'" by (cases i) auto
      have "i' < length q" using i(1) i' by simp
      moreover have "spec_named_slot k (q ! i') n" using i(2) i' by simp
      moreover have "\<forall>j<i'. \<forall>m. \<not> spec_named_slot k (q ! j) m"
      proof (intro allI impI)
        fix j m assume "j < i'"
        then have "Suc j < i" using i' by simp
        with i(3) have "\<not> spec_named_slot k ((f # q) ! Suc j) m" by blast
        then show "\<not> spec_named_slot k (q ! j) m" by simp
      qed
      ultimately show ?R by blast
    next
      assume ?R
      then obtain i where i: "i < length q" "spec_named_slot k (q ! i) n"
          "\<forall>j<i. \<forall>m. \<not> spec_named_slot k (q ! j) m" by blast
      have "\<forall>j<Suc i. \<forall>m. \<not> spec_named_slot k ((f # q) ! j) m"
      proof (intro allI impI)
        fix j m assume j: "j < Suc i"
        show "\<not> spec_named_slot k ((f # q) ! j) m"
        proof (cases j)
          case 0 then show ?thesis using nf by simp
        next
          case (Suc j')
          then have "j' < i" using j by simp
          with i(3) Suc show ?thesis by simp
        qed
      qed
      with i(1) i(2) show ?L by (intro exI[of _ "Suc i"]) simp
    qed
    with False Cons.IH show ?thesis by simp
  qed
qed

lemma find_name_None:
  assumes P: "\<And>f. P f \<longleftrightarrow> (\<exists>m. spec_named_slot k f m)"
  shows "(case find P q of None \<Rightarrow> None
          | Some found \<Rightarrow> (case slot found k of None \<Rightarrow> None | Some d \<Rightarrow> name d)) = None
     \<longleftrightarrow> (\<forall>f\<in>set q. \<forall>m. \<not> spec_named_slot k f m)"
proof (induction q)
  case Nil
  show ?case by simp
next
  case (Cons f q)
  show ?case
  proof (cases "P f")
    case True
    then obtain m where m: "spec_named_slot k f m" using P by blast
    then show ?thesis using True
      by (auto simp add: spec_named_slot_def split: option.splits)
  next
    case False
    then have "\<And>m. \<not> spec_named_slot k f m" using P by blast
    with False Cons.IH show ?thesis by simp
  qed
qed

lemma propsName_skip:
  "ptype p = ObjectPattern \<Longrightarrow> propsName (push (evalParams (p # ps)) q) = propsName q"
  by (simp add: propsName_def push_def evalParams_def evalParam_def props_pred_def)

lemma contextName_skip:
  "ptype p' = ObjectPattern \<Longrightarrow> contextName (push (evalParams (p # p' # ps)) q) = contextName q"
  by (simp add: contextName_def push_def evalParams_def evalParam_def context_pred_def)

lemma propsName_Some_iff:
  "propsName q = Some n \<longleftrightarrow>
      (\<exists>i<length q. spec_named_slot 0 (q ! i) n \<and> (\<forall>j<i. \<forall>m. \<not> spec_named_slot 0 (q ! j) m))"
  unfolding propsName_def by (rule find_name_Some) (rule props_pred_iff)

lemma propsName_None_iff:
  "propsName q = None \<longleftrightarrow> (\<forall>f\<in>set q. \<forall>m. \<not> spec_named_slot 0 f m)"
  unfolding propsName_def by (rule find_name_None) (rule props_pred_iff)

lemma contextName_Some_iff:
  "contextName q = Some n \<longleftrightarrow>
      (\<exists>i<length q. spec_named_slot 1 (q ! i) n \<and> (\<forall>j<i. \<forall>m. \<not> spec_named_slot 1 (q ! j) m))"
  unfolding contextName_def by (rule find_name_Some) (rule context_pred_iff)

lemma contextName_None_iff:
  "contextName q = None \<longleftrightarrow> (\<forall>f\<in>set q. \<forall>m. \<not> spec_named_slot 1 f m)"
  unfolding contextName_def by (rule find_name_None) (rule context_pred_iff)


text \<open>
  Claim C5. For every state of the scope stack, \<open>propsName\<close> returns the name of the
  frontmost frame whose props slot is a plain identifier (not destructuring) with a
  name, and nothing when no frame has such a slot; \<open>contextName\<close> does the same with
  the context slot (index 1). A frame pushed for a function whose parameter is an object
  pattern never supplies a name for that slot: the answer is that of the frames below.
\<close>

theorem propsName_contextName_nearest:
  "(propsName q = Some n \<longleftrightarrow>
      (\<exists>i<length q. spec_named_slot 0 (q ! i) n \<and> (\<forall>j<i. \<forall>m. \<not> spec_named_slot 0 (q ! j) m)))
   \<and> (propsName q = None \<longleftrightarrow> (\<forall>f\<in>set q. \<forall>m. \<not> spec_named_slot 0 f m))
   \<and> (contextName q = Some n \<longleftrightarrow>
      (\<exists>i<length q. spec_named_slot 1 (q ! i) n \<and> (\<forall>j<i. \<forall>m. \<not> spec_named_slot 1 (q ! j) m)))
   \<and> (contextName q = None \<longleftrightarrow> (\<forall>f\<in>set q. \<forall>m. \<not> spec_named_slot 1 f m))
   \<and> (ptype p = ObjectPattern \<longrightarrow> propsName (push (evalParams (p # ps)) q) = propsName q)
   \<and> (ptype p' = ObjectPattern \<longrightarrow>
        contextName (push (evalParams (p # p' # ps)) q) = contextName q)"
  using propsName_Some_iff[of q n] propsName_None_iff[of q]
        contextName_Some_iff[of q n] contextName_None_iff[of q]
        propsName_skip[of p ps q] contextName_skip[of p' p ps q]
  by blast


text \<open>
  At the stack of \<^verbatim>\<open>function Outer(props) { function Inner({a}) { ... } }\<close> inside
  Inner: the name comes from the frame of Outer, and there is no context name.
\<close>

theorem propsName_contextName_nearest_witness:
  "propsName (push (evalParams [object_param]) [evalParams [props_param]]) = Some ''props''
   \<and> contextName (push (evalParams [object_param]) [evalParams [props_param]]) = None"
  using propsName_contextName_nearest[where q = "[evalParams [props_param]]" and n = "''props''"
          and p = object_param and ps = "[]" and p' = object_param and ps = "[]"]
  by (simp add: propsName_def contextName_def push_def evalParams_def evalParam_def
        props_pred_def context_pred_def truthy_name_def object_param_def props_param_def)

text \<open>
  Claim C6 says that the two handlers keep the stack balanced: after the enter and the
  exit of a function the depth is what it was, and at any point it is the number of open
  functions that pass the test. The handlers do push and pop by the same test, and the
  stack is balanced as long as the test answers the same at the enter and at the exit of
  each function (\<open>balance_when_tests_agree\<close>). But the exit handler reads the registry
  anew instead of undoing what the enter handler did, and the registry is filled while
  the tree is visited. In \<^verbatim>\<open>function Outer(props) { function helper() { ... } return props.x; }\<close>
  with helper registered between its two handler calls, the exit of helper pops the
  frame of Outer: the stack is empty while Outer, which passes the test, is still open,
  and the access \<^verbatim>\<open>props.x\<close> that follows is not reported in the mode always.
\<close>

theorem scope_stack_drift:
  "queue (run nested_context
       [(registry_before, Enter Comp_props), (registry_before, Enter inner_function),
        (registry_after, Exit inner_function)] init_state) = []
   \<and> open_functions [] [Enter Comp_props, Enter inner_function, Exit inner_function]
      = [Comp_props]
   \<and> tracked (at_registry nested_context registry_before) Comp_props
   \<and> tracked (at_registry nested_context registry_after) Comp_props
   \<and> \<not> tracked (at_registry nested_context registry_before) inner_function
   \<and> tracked (at_registry nested_context registry_after) inner_function
   \<and> reports (run nested_context
       [(registry_before, Enter Comp_props), (registry_before, Enter inner_function),
        (registry_after, Exit inner_function), (registry_after, Member props_x)] init_state) = []
   \<and> map messageId (reports (run nested_context
       (stable nested_context
          [Enter Comp_props, Enter inner_function, Exit inner_function, Member props_x])
       init_state)) = [Some ''useDestructAssignment'']"
  by (simp add: nested_context_def example_context_def registry_before_def registry_after_def
        at_registry_def tracked_def Comp_props_def Comp_props_scope_def inner_function_def
        inner_scope_def module_scope_def props_param_def props_x_def init_state_def
        handleStatelessComponent_def handleStatelessComponentExit_def
        visit_MemberExpression_def handleSFCUsage_def handleClassUsage_def Let_def
        evalParams_def evalParam_def push_def pop_def configuration_def DEFAULT_OPTION_def
        propsName_def contextName_def props_pred_def context_pred_def truthy_name_def
        emit_def report_util_def)

section \<open>Reports on entering a component\<close>

text \<open>
  Claim C1, as amended. For a function node that is itself a registered component (the
  block of its scope is the node), entered in the mode never: when its first parameter
  is an object pattern, the report noDestructPropsInSFCArg is emitted and nothing else,
  whatever the second parameter is; when its first parameter is not an object pattern
  and its second is, the report noDestructContextInSFCArg is emitted and nothing else.
\<close>

theorem sfc_argument_reports:
  assumes "components_get ctx (f_id node) \<noteq> None"
      and "block (getScope ctx (f_id node)) = f_id node"
      and "configuration ctx = ''never''"
  shows "(slot (f_params node) 0 = Some pa \<and> ptype pa = ObjectPattern \<longrightarrow>
            emitted s (handleStatelessComponent ctx node s) =
              [report_util (messages_get ''noDestructPropsInSFCArg'') ''noDestructPropsInSFCArg''
                 (f_id node) None None])
       \<and> (slot (f_params node) 0 = Some pa \<and> ptype pa \<noteq> ObjectPattern
            \<and> slot (f_params node) 1 = Some pb \<and> ptype pb = ObjectPattern \<longrightarrow>
            emitted s (handleStatelessComponent ctx node s) =
              [report_util (messages_get ''noDestructContextInSFCArg'') ''noDestructContextInSFCArg''
                 (f_id node) None None])"
proof (cases "f_params node")
  case Nil
  then show ?thesis by simp
next
  case (Cons a rest)
  show ?thesis
  proof (cases rest)
    case Nil
    with Cons assms show ?thesis
      by (auto simp add: handleStatelessComponent_def Let_def evalParams_def evalParam_def
            emitted_def reports_emit push_def)
  next
    case (Cons b rest')
    with \<open>f_params node = a # rest\<close> assms show ?thesis
      by (auto simp add: handleStatelessComponent_def Let_def evalParams_def evalParam_def
            emitted_def reports_emit push_def)
  qed
qed


text \<open>
  \<^verbatim>\<open>function Comp({a}) { ... }\<close> gives the props report and
  \<^verbatim>\<open>function Comp(props, {b}) { ... }\<close> the context report.
\<close>

theorem sfc_argument_reports_witness:
  "emitted init_state (handleStatelessComponent (never_context Comp_first) Comp_first init_state) =
     [report_util (messages_get ''noDestructPropsInSFCArg'') ''noDestructPropsInSFCArg'' 1 None None]
   \<and> emitted init_state (handleStatelessComponent (never_context Comp_second) Comp_second init_state) =
     [report_util (messages_get ''noDestructContextInSFCArg'') ''noDestructContextInSFCArg'' 1 None None]"
  using sfc_argument_reports[where ctx = "never_context Comp_first" and node = Comp_first
          and pa = object_param and pb = object_param and s = init_state]
        sfc_argument_reports[where ctx = "never_context Comp_second" and node = Comp_second
          and pa = props_param and pb = object_param2 and s = init_state]
  by (simp add: never_context_def example_context_def Comp_first_def Comp_second_def
        configuration_def object_param_def object_param2_def props_param_def)

text \<open>
  The claim as stated fails at \<^verbatim>\<open>function Comp({a}, {b}) { ... }\<close> in the mode never: the
  component is registered and both parameters are object patterns, yet the one report
  emitted is the props report; the second branch hangs on the \<^verbatim>\<open>else\<close> of the first.
\<close>

theorem both_destructured_counterexample:
  "components_get (never_context Comp_both) (f_id Comp_both) \<noteq> None
   \<and> block (getScope (never_context Comp_both) (f_id Comp_both)) = f_id Comp_both
   \<and> configuration (never_context Comp_both) = ''never''
   \<and> map ptype (f_params Comp_both) = [ObjectPattern, ObjectPattern]
   \<and> map messageId
        (emitted init_state (handleStatelessComponent (never_context Comp_both) Comp_both init_state))
      = [Some ''noDestructPropsInSFCArg'']"
  by (simp add: never_context_def example_context_def Comp_both_def configuration_def
        object_param_def object_param2_def handleStatelessComponent_def Let_def evalParams_def
        evalParam_def push_def emitted_def init_state_def reports_emit report_util_def)

section \<open>Member accesses\<close>

text \<open>
  The walk of the member handler finds a component exactly when the registry knows the
  block of some scope of the chain, from the scope of the access outward.
\<close>

lemma scope_upper_neq: "up \<noteq> Scope b vs (Some up)"
proof
  assume "up = Scope b vs (Some up)"
  then have "size up = size (Scope b vs (Some up))" by simp
  then show False by simp
qed

lemma scope_chain_set: "set (scope_chain sc) = insert sc (set (tl (scope_chain sc)))"
  by (cases sc rule: scope_chain.cases) auto

lemma findSFC_walk:
  "findSFC ctx sc c \<noteq> None \<longleftrightarrow>
     c \<noteq> None \<or> (\<exists>sc'\<in>set (tl (scope_chain sc)). components_get ctx (block sc') \<noteq> None)"
proof (induction ctx sc c rule: findSFC.induct)
  case (1 ctx b vs SFCComponent)
  show ?case by simp
next
  case (2 ctx b vs up SFCComponent)
  show ?case
  proof (cases "SFCComponent = None")
    case True
    have step: "findSFC ctx (Scope b vs (Some up)) SFCComponent
                  = findSFC ctx up (components_get ctx (block up))"
      using True scope_upper_neq[of up b vs] by simp
    have ih: "findSFC ctx up (components_get ctx (block up)) \<noteq> None \<longleftrightarrow>
                components_get ctx (block up) \<noteq> None
                \<or> (\<exists>sc'\<in>set (tl (scope_chain up)). components_get ctx (block sc') \<noteq> None)"
      using "2.IH" True scope_upper_neq[of up b vs] by blast
    have tl: "tl (scope_chain (Scope b vs (Some up))) = scope_chain up" by simp
    show ?thesis
      unfolding step tl using ih True scope_chain_set[of up] by auto
  next
    case False
    then have "findSFC ctx (Scope b vs (Some up)) SFCComponent = SFCComponent"
      by (cases SFCComponent) simp_all
    with False show ?thesis by simp
  qed
qed

lemma findSFC_iff:
  "findSFC ctx sc (components_get ctx (block sc)) \<noteq> None \<longleftrightarrow>
     (\<exists>sc'\<in>set (scope_chain sc). components_get ctx (block sc') \<noteq> None)"
  using findSFC_walk[of ctx sc "components_get ctx (block sc)"] scope_chain_set[of sc]
  by auto

lemma find_holds: "find P xs = Some x \<Longrightarrow> P x"
  by (induction xs) (auto split: if_splits)

lemma propsName_truthy: "propsName q = Some n \<Longrightarrow> n \<noteq> []"
  by (auto simp add: propsName_def props_pred_def truthy_name_def
        split: option.splits dest!: find_holds)

lemma contextName_truthy: "contextName q = Some n \<Longrightarrow> n \<noteq> []"
  by (auto simp add: contextName_def context_pred_def truthy_name_def
        split: option.splits dest!: find_holds)


text \<open>
  Claim C3. In the mode always, for a member access from whose scope the chain of
  enclosing scopes, walked outward, holds a scope whose block is a registered component,
  whose object is an identifier named as \<open>propsName\<close> or \<open>contextName\<close> of the stack
  answers, and which is not an assignment target: exactly one report with the key
  useDestructAssignment is emitted, at the access, with the name as its data. The second
  conjunct gives everything the handler emits there: that report, followed by the report
  without a key of the context identifier check when the name is in the set as well.
\<close>

theorem sfc_usage_reported_once:
  assumes "configuration ctx = ''always''"
      and "\<exists>sc\<in>set (scope_chain (getScope ctx (m_id node))).
             components_get ctx (block sc) \<noteq> None"
      and "name_of (m_object node) = Some n"
      and "propsName (queue s) = Some n \<or> contextName (queue s) = Some n"
      and "\<not> isAssignmentLHS ctx (m_id node)"
  shows "filter (\<lambda>r. messageId r = Some ''useDestructAssignment'')
           (emitted s (visit_MemberExpression ctx node s)) =
         [report_util (messages_get ''useDestructAssignment'') ''useDestructAssignment''
            (m_id node) (Some n) None]
       \<and> emitted s (visit_MemberExpression ctx node s) =
         report_util (messages_get ''useDestructAssignment'') ''useDestructAssignment''
            (m_id node) (Some n) None
         # (if n \<in> contextSet s
            then [context_report (m_id node) (''Must use destructuring '' @ n @ '' assignment'')]
            else [])"
proof -
  have n: "n \<noteq> []" using assms(4) propsName_truthy contextName_truthy by blast
  have found: "findSFC ctx (getScope ctx (m_id node))
                 (components_get ctx (block (getScope ctx (m_id node)))) \<noteq> None"
    using assms(2) by (simp only: findSFC_iff)
  have cls: "handleClassUsage ctx node s' = s'" for s'
    using assms(3) by (cases "m_object node") (simp_all add: handleClassUsage_def)
  show ?thesis
    using assms(1,3,4,5) n found
    by (auto simp add: visit_MemberExpression_def Let_def cls handleSFCUsage_def truthy_name_def
          emitted_emit emitted_emit2 report_util_def context_report_def contextSet_emit
          template_str_def)
qed

text \<open>
  \<^verbatim>\<open>function Comp(props) { return props.x; }\<close>: one report, at \<^verbatim>\<open>props.x\<close>. And
  \<^verbatim>\<open>function Comp(props) { return items.map(() => props.x); }\<close>: the access lies in the
  scope of the arrow function, which is not a component and gets no frame; the walk
  reaches the scope of Comp, and the access is reported once.
\<close>

theorem sfc_usage_reported_once_witness:
  "emitted (handleStatelessComponent always_context Comp_props init_state)
     (visit_MemberExpression always_context props_x
        (handleStatelessComponent always_context Comp_props init_state))
   = [report_util (messages_get ''useDestructAssignment'') ''useDestructAssignment'' 3
        (Some ''props'') None]
   \<and> components_get nested_context (block (getScope nested_context (m_id props_x_nested))) = None
   \<and> emitted
        (run nested_context (stable nested_context [Enter Comp_props, Enter inner_function])
           init_state)
        (visit_MemberExpression nested_context props_x_nested
           (run nested_context (stable nested_context [Enter Comp_props, Enter inner_function])
              init_state))
     = [report_util (messages_get ''useDestructAssignment'') ''useDestructAssignment'' 31
          (Some ''props'') None]"
  using sfc_usage_reported_once[where ctx = always_context and node = props_x and n = "''props''"
          and s = "handleStatelessComponent always_context Comp_props init_state"]
        sfc_usage_reported_once[where ctx = nested_context and node = props_x_nested
          and n = "''props''"
          and s = "run nested_context
                     (stable nested_context [Enter Comp_props, Enter inner_function]) init_state"]
  by (simp add: always_context_def nested_context_def example_context_def Comp_props_def
        Comp_props_scope_def inner_scope_def inner_function_def module_scope_def props_x_def
        props_x_nested_def props_param_def configuration_def DEFAULT_OPTION_def
        handleStatelessComponent_def Let_def evalParams_def evalParam_def push_def
        propsName_def props_pred_def truthy_name_def init_state_def)

lemma isInClassProperty_iff:
  "isInClassProperty anc \<longleftrightarrow> (\<exists>t\<in>set anc. t = ''ClassProperty'' \<or> t = ''PropertyDefinition'')"
  by (induction anc) auto


text \<open>
  Claim C4. For a member access whose object is \<^verbatim>\<open>this.props\<close>, \<^verbatim>\<open>this.context\<close> or
  \<^verbatim>\<open>this.state\<close>, inside a component as \<^verbatim>\<open>getParentComponent\<close> answers, and that is
  not an assignment target: in the mode always the report useDestructAssignment is
  emitted, unless ignoreClassFields is set and an ancestor of the access is a
  ClassProperty or a PropertyDefinition; in the mode never nothing is emitted.
\<close>

theorem class_usage_reports:
  assumes "getParentComponent ctx (m_id node) \<noteq> None"
      and "m_object node = MemberExpression ThisExpression (Identifier p)"
      and "p = ''props'' \<or> p = ''context'' \<or> p = ''state''"
      and "\<not> isAssignmentLHS ctx (m_id node)"
  shows "(configuration ctx = ''always'' \<longrightarrow>
            emitted s (visit_MemberExpression ctx node s) =
              (if ignoreClassFields ctx
                  \<and> (\<exists>t\<in>set (m_ancestors node). t = ''ClassProperty'' \<or> t = ''PropertyDefinition'')
               then []
               else [report_util (messages_get ''useDestructAssignment'') ''useDestructAssignment''
                       (m_id node) (Some p) None]))
       \<and> (configuration ctx = ''never'' \<longrightarrow> emitted s (visit_MemberExpression ctx node s) = [])"
proof -
  have sfc: "handleSFCUsage ctx node s = s"
    using assms(2) by (simp add: handleSFCUsage_def Let_def truthy_name_def split: option.splits)
  show ?thesis
    using assms
    by (auto simp add: visit_MemberExpression_def Let_def sfc handleClassUsage_def
          class_field_name_def emitted_same emitted_emit isInClassProperty_iff)
qed


text \<open>
  \<^verbatim>\<open>this.props.x\<close> in a render method is reported; in a class field initializer with
  \<^verbatim>\<open>ignoreClassFields: true\<close> it is not, and neither is it in the mode never.
\<close>

theorem class_usage_reports_witness:
  "emitted init_state (visit_MemberExpression (class_context None) this_props_x_render init_state) =
     [report_util (messages_get ''useDestructAssignment'') ''useDestructAssignment'' 12
        (Some ''props'') None]
   \<and> emitted init_state
        (visit_MemberExpression (class_context (Some ignore_fields_options)) this_props_x_field
           init_state) = []
   \<and> emitted init_state
        (visit_MemberExpression ((class_context None)\<lparr>options0 := Some ''never''\<rparr>)
           this_props_x_render init_state) = []"
  using class_usage_reports[where ctx = "class_context None" and node = this_props_x_render
          and p = "''props''" and s = init_state]
        class_usage_reports[where ctx = "class_context (Some ignore_fields_options)"
          and node = this_props_x_field and p = "''props''" and s = init_state]
        class_usage_reports[where ctx = "(class_context None)\<lparr>options0 := Some ''never''\<rparr>"
          and node = this_props_x_render and p = "''props''" and s = init_state]
  by (simp add: class_context_def example_context_def this_props_x_render_def
        this_props_x_field_def ignore_fields_options_def configuration_def
        ignoreClassFields_def)

lemma handleSFCUsage_lhs:
  "isAssignmentLHS ctx (m_id node) \<Longrightarrow> handleSFCUsage ctx node s = s"
  by (simp add: handleSFCUsage_def Let_def)

lemma handleClassUsage_lhs:
  "isAssignmentLHS ctx (m_id node) \<Longrightarrow> handleClassUsage ctx node s = s"
  by (simp add: handleClassUsage_def Let_def split: expr.splits)





section \<open>Declarators\<close>

text \<open>
  Claim C2, as amended. For a declarator \<^verbatim>\<open>{...} = props\<close> whose scope's block is a
  registered component, in the mode always with destructureInSignature always: when the
  scope of the declarator itself declares a variable \<^verbatim>\<open>props\<close> with at most one
  reference, exactly one report destructureInSignature is emitted; its fix, when the
  component has a first parameter, replaces the text from the start of that parameter up
  to the start of its type annotation (to the parameter's end when it has none) by the
  text of the binding pattern and removes the declaration statement, and makes no edit
  when the component has no parameter. When \<^verbatim>\<open>props\<close> has more than one reference there,
  or that scope declares no variable \<^verbatim>\<open>props\<close>, nothing is emitted.
\<close>

theorem destructure_in_signature:
  assumes "components_get ctx (block (getScope ctx (d_id node))) = Some sfc"
      and "ptype (d_pattern node) = ObjectPattern"
      and "d_init node = Some (Identifier ''props'')"
      and "configuration ctx = ''always''"
      and "destructureInSignature ctx = ''always''"
  shows "emitted s (visit_VariableDeclarator ctx node s) =
     (case map_of (scope_set (getScope ctx (d_id node))) ''props'' of
        None \<Rightarrow> []
      | Some v \<Rightarrow>
          if length (references v) \<le> 1
          then [report_util (messages_get ''destructureInSignature'') ''destructureInSignature''
                  (d_id node) None
                  (Some (case f_params (comp_node sfc) of
                           [] \<Rightarrow> None
                         | param # rest \<Rightarrow>
                             Some [ReplaceTextRange
                                     (fst (prange param),
                                      case typeAnnotation param of
                                        Some ta \<Rightarrow> fst ta
                                      | None \<Rightarrow> snd (prange param))
                                     (getText ctx (d_pattern node)),
                                   Remove (d_parent node)]))]
          else [])"
  using assms
  by (auto simp add: visit_VariableDeclarator_def Let_def emitted_same emitted_emit
        signature_fix_def split: option.splits list.splits)


text \<open>
  \<^verbatim>\<open>function Comp(props) { const {x} = props; return x + x; }\<close>: one report, whose fix
  writes \<^verbatim>\<open>{x}\<close> over the parameter and removes the declaration.
\<close>

theorem destructure_in_signature_witness:
  "emitted init_state (visit_VariableDeclarator signature_context x_of_props init_state) =
     [report_util (messages_get ''destructureInSignature'') ''destructureInSignature'' 5 None
        (Some (Some [ReplaceTextRange (14, 19) ''{x}'', Remove 4]))]"
  using destructure_in_signature[where ctx = signature_context and node = x_of_props
          and sfc = "\<lparr>comp_node = Comp_props\<rparr>" and s = init_state]
  by (simp add: signature_context_def example_context_def x_of_props_def Comp_props_def
        props_param_def configuration_def destructureInSignature_def signature_options_def)

text \<open>
  The claim as stated fails at two programs. In
  \<^verbatim>\<open>function Comp() { let props; const {x} = props; return x + x; }\<close> the binding of
  \<^verbatim>\<open>props\<close> has one reference and the report is emitted, but the component has no first
  parameter and the fix returns no edit. In
  \<^verbatim>\<open>function Outer(props) { return function Comp() { const {x} = props; return x + x; }; }\<close>
  the binding of \<^verbatim>\<open>props\<close>, in the scope that defines it, has one reference, and nothing
  is reported: the rule asks the scope of the declarator only.
\<close>

theorem destructure_in_signature_counterexample:
  "configuration local_props_context = ''always''
   \<and> destructureInSignature local_props_context = ''always''
   \<and> components_get local_props_context (block (getScope local_props_context (d_id x_of_props)))
      = Some \<lparr>comp_node = Comp_none\<rparr>
   \<and> spec_binding ''props'' (getScope local_props_context (d_id x_of_props))
      = Some \<lparr>references = [6]\<rparr>
   \<and> map r_fix
        (emitted init_state (visit_VariableDeclarator local_props_context x_of_props init_state))
      = [Some None]
   \<and> configuration outer_props_context = ''always''
   \<and> destructureInSignature outer_props_context = ''always''
   \<and> components_get outer_props_context (block (getScope outer_props_context (d_id x_of_props)))
      = Some \<lparr>comp_node = Comp_none\<rparr>
   \<and> spec_binding ''props'' (getScope outer_props_context (d_id x_of_props))
      = Some \<lparr>references = [6]\<rparr>
   \<and> emitted init_state (visit_VariableDeclarator outer_props_context x_of_props init_state) = []"
  by (simp add: local_props_context_def outer_props_context_def example_context_def
        x_of_props_def Comp_none_def module_scope_def configuration_def
        destructureInSignature_def signature_options_def visit_VariableDeclarator_def Let_def
        signature_fix_def emitted_def init_state_def reports_emit report_util_def hasHooks_def
        class_field_name_def)

section \<open>The context identifier set\<close>

lemma keyed_enter:
  "keyed (reports s) \<Longrightarrow> keyed (reports (handleStatelessComponent ctx f s))"
  by (simp add: handleStatelessComponent_def Let_def keyed_def reports_emit report_util_def
        split: option.splits)

lemma keyed_exit:
  "keyed (reports s) \<Longrightarrow> keyed (reports (handleStatelessComponentExit ctx f s))"
  by (simp add: handleStatelessComponentExit_def split: option.splits)

lemma keyed_handleClassUsage:
  "keyed (reports s) \<Longrightarrow> keyed (reports (handleClassUsage ctx m s))"
  by (simp add: handleClassUsage_def Let_def keyed_def reports_emit report_util_def)

lemma keyed_handleSFCUsage:
  "keyed (reports s) \<Longrightarrow> contextSet s = {} \<Longrightarrow> keyed (reports (handleSFCUsage ctx m s))"
  by (simp add: handleSFCUsage_def Let_def keyed_def reports_emit report_util_def
        contextSet_emit split: option.splits)

lemma keyed_member:
  "keyed (reports s) \<Longrightarrow> contextSet s = {} \<Longrightarrow> keyed (reports (visit_MemberExpression ctx m s))"
  by (simp add: visit_MemberExpression_def Let_def keyed_handleClassUsage keyed_handleSFCUsage)

lemma keyed_declarator:
  "keyed (reports s) \<Longrightarrow> \<not> hasHooks ctx \<Longrightarrow> keyed (reports (visit_VariableDeclarator ctx d s))"
  by (simp add: visit_VariableDeclarator_def Let_def keyed_def reports_emit report_util_def
        split: option.splits)

lemma keyed_run:
  "\<not> hasHooks ctx \<Longrightarrow> keyed (reports s) \<Longrightarrow> contextSet s = {}
     \<Longrightarrow> keyed (reports (run ctx es s))"
proof (induction es arbitrary: s)
  case Nil
  then show ?case by simp
next
  case (Cons te es)
  obtain r e where te: "te = (r, e)" by (cases te)
  have k: "keyed (reports (step (at_registry ctx r) e s))"
    using Cons.prems
    by (cases e) (simp_all add: keyed_enter keyed_exit keyed_member keyed_declarator)
  have c: "contextSet (step (at_registry ctx r) e s) = {}"
    using Cons.prems by (simp add: contextSet_step_nohooks)
  show ?case using Cons.IH[OF Cons.prems(1) k c] te by simp
qed


text \<open>
  Claim C8. When the version test answers that the hook is not supported, the two
  patterns with a call of \<^verbatim>\<open>useContext\<close> are never matched: a declarator whose
  initializer is such a call leaves the state as it is (no report, no name added), no
  declarator changes the context identifier set, and over a whole traversal, whatever
  the registry answers at each event, the set stays empty and every report carries a
  message key, so that none comes from the check of the set.
\<close>

theorem hooks_unsupported:
  assumes "\<not> hasHooks ctx"
  shows "(d_init d = Some (CallExpression (Identifier ''useContext'') args) \<longrightarrow>
            visit_VariableDeclarator ctx d s = s)
       \<and> contextSet (visit_VariableDeclarator ctx d s) = contextSet s
       \<and> contextSet (run ctx es init_state) = {}
       \<and> (\<forall>r\<in>set (reports (run ctx es init_state)). messageId r \<noteq> None)"
proof -
  have a: "d_init d = Some (CallExpression (Identifier ''useContext'') args) \<Longrightarrow>
            visit_VariableDeclarator ctx d s = s"
    using assms by (simp add: visit_VariableDeclarator_def Let_def class_field_name_def
        split: option.splits)
  have b: "contextSet (visit_VariableDeclarator ctx d s) = contextSet s"
    using assms by (simp add: contextSet_declarator)
  have c: "contextSet (run ctx es init_state) = {}"
    using assms by (simp add: contextSet_run_nohooks init_state_def)
  have "keyed (reports (run ctx es init_state))"
    using assms by (intro keyed_run) (simp_all add: init_state_def keyed_def)
  then have d: "\<forall>r\<in>set (reports (run ctx es init_state)). messageId r \<noteq> None"
    by (simp add: keyed_def list_all_iff)
  show ?thesis using a b c d by blast
qed


text \<open>
  \<^verbatim>\<open>function A() { const foo = useContext(Ctx); return <p>{foo.value}</p>; }\<close> without
  hooks: nothing is recorded and nothing reported.
\<close>

theorem hooks_unsupported_witness:
  "\<not> hasHooks (hooks_context ''always'' False)
   \<and> visit_VariableDeclarator (hooks_context ''always'' False) foo_useContext init_state = init_state
   \<and> contextSet (run (hooks_context ''always'' False)
        (stable (hooks_context ''always'' False)
           [Enter fun_A, Declarator foo_useContext, Member foo_value_A, Exit fun_A])
        init_state) = {}
   \<and> list_all (\<lambda>r. messageId r \<noteq> None)
        (reports (run (hooks_context ''always'' False)
           (stable (hooks_context ''always'' False)
              [Enter fun_A, Declarator foo_useContext, Member foo_value_A, Exit fun_A])
           init_state))"
  using hooks_unsupported[where ctx = "hooks_context ''always'' False" and d = foo_useContext
          and args = "[Identifier ''Ctx'']" and s = init_state
          and es = "stable (hooks_context ''always'' False)
                      [Enter fun_A, Declarator foo_useContext, Member foo_value_A, Exit fun_A]"]
  by (simp add: hooks_context_def example_context_def hasHooks_def foo_useContext_def
        list_all_iff)

text \<open>
  Claim C10, as amended. The context identifier set only grows over a traversal,
  whatever the registry answers at each event. A declarator that binds a plain
  identifier to a call of \<^verbatim>\<open>useContext\<close>, in a scope whose block is a registered
  component and with the hook supported, adds the name in every mode; the name stays in
  the set through all later events, the exit of that component among them; and in the
  mode always a later member access on an object of that name that is not an assignment
  target, with a scope on the chain of its scopes whose block the registry knows when
  the access is visited (\<open>r\<close> is what the registry answers then), gets the report of the
  set's check.
\<close>

theorem context_set_only_grows:
  "contextSet s \<subseteq> contextSet (run ctx es s)
   \<and> (hasHooks ctx \<and> components_get ctx (block (getScope ctx (d_id d))) \<noteq> None
        \<and> ptype (d_pattern d) = IdentifierPattern n
        \<and> d_init d = Some (CallExpression (Identifier ''useContext'') args) \<longrightarrow>
        contextSet (visit_VariableDeclarator ctx d s) = insert n (contextSet s)
        \<and> n \<in> contextSet (run ctx es (visit_VariableDeclarator ctx d s))
        \<and> (configuration ctx = ''always'' \<and> name_of (m_object m) = Some n
             \<and> (\<exists>sc\<in>set (scope_chain (getScope ctx (m_id m))). fst r (block sc) \<noteq> None)
             \<and> \<not> isAssignmentLHS ctx (m_id m) \<longrightarrow>
             context_report (m_id m) (''Must use destructuring '' @ n @ '' assignment'')
               \<in> set (emitted (run ctx es (visit_VariableDeclarator ctx d s))
                         (visit_MemberExpression (at_registry ctx r) m
                            (run ctx es (visit_VariableDeclarator ctx d s))))))"
proof -
  have mono: "contextSet s \<subseteq> contextSet (run ctx es s)" by (rule contextSet_run_mono)
  {
    assume h: "hasHooks ctx" "components_get ctx (block (getScope ctx (d_id d))) \<noteq> None"
        "ptype (d_pattern d) = IdentifierPattern n"
        "d_init d = Some (CallExpression (Identifier ''useContext'') args)"
    let ?s1 = "visit_VariableDeclarator ctx d s"
    let ?s2 = "run ctx es ?s1"
    let ?c = "at_registry ctx r"
    have ins: "contextSet ?s1 = insert n (contextSet s)"
      using h by (simp add: contextSet_declarator)
    have mem: "n \<in> contextSet ?s2"
      using ins contextSet_run_mono[of ?s1 ctx es] by auto
    {
      assume g: "configuration ctx = ''always''" "name_of (m_object m) = Some n"
        "\<exists>sc\<in>set (scope_chain (getScope ctx (m_id m))). fst r (block sc) \<noteq> None"
        "\<not> isAssignmentLHS ctx (m_id m)"
      have "\<exists>sc\<in>set (scope_chain (getScope ?c (m_id m))). components_get ?c (block sc) \<noteq> None"
        using g(3) by simp
      then have found: "findSFC ?c (getScope ?c (m_id m))
                          (components_get ?c (block (getScope ?c (m_id m)))) \<noteq> None"
        by (simp only: findSFC_iff)
      have cls: "handleClassUsage ?c m s' = s'" for s'
        using g(2) by (cases "m_object m") (simp_all add: handleClassUsage_def)
      have "context_report (m_id m) (''Must use destructuring '' @ n @ '' assignment'')
               \<in> set (emitted ?s2 (visit_MemberExpression ?c m ?s2))"
        using g(1,2,4) found mem
        by (simp add: visit_MemberExpression_def Let_def cls handleSFCUsage_def
              emitted_emit emitted_emit2 contextSet_emit template_str_def)
    }
    note rep = this
    have "contextSet ?s1 = insert n (contextSet s) \<and> n \<in> contextSet ?s2
        \<and> (configuration ctx = ''always'' \<and> name_of (m_object m) = Some n
             \<and> (\<exists>sc\<in>set (scope_chain (getScope ctx (m_id m))). fst r (block sc) \<noteq> None)
             \<and> \<not> isAssignmentLHS ctx (m_id m) \<longrightarrow>
             context_report (m_id m) (''Must use destructuring '' @ n @ '' assignment'')
               \<in> set (emitted ?s2 (visit_MemberExpression ?c m ?s2)))"
      using ins mem rep by blast
  }
  with mono show ?thesis by blast
qed

text \<open>
  \<^verbatim>\<open>function A() { const foo = useContext(Ctx); return <p/>; }\<close> followed by
  \<^verbatim>\<open>function B(foo) { return <p>{foo.value}</p>; }\<close>: the access in B is reported through
  the set; and the name is recorded in the mode never as well.
\<close>

theorem context_set_only_grows_witness:
  "contextSet (visit_VariableDeclarator (hooks_context ''never'' True) foo_useContext init_state)
     = {''foo''}
   \<and> context_report 22 ''Must use destructuring foo assignment''
       \<in> set (emitted
                (run (hooks_context ''always'' True)
                   (stable (hooks_context ''always'' True) [Exit fun_A, Enter fun_B])
                   (visit_VariableDeclarator (hooks_context ''always'' True) foo_useContext
                      (handleStatelessComponent (hooks_context ''always'' True) fun_A init_state)))
                (visit_MemberExpression (hooks_context ''always'' True) foo_value_B
                   (run (hooks_context ''always'' True)
                      (stable (hooks_context ''always'' True) [Exit fun_A, Enter fun_B])
                      (visit_VariableDeclarator (hooks_context ''always'' True) foo_useContext
                         (handleStatelessComponent (hooks_context ''always'' True) fun_A
                            init_state)))))"
  using context_set_only_grows[where ctx = "hooks_context ''never'' True" and d = foo_useContext
          and n = "''foo''" and args = "[Identifier ''Ctx'']" and s = init_state and es = "[]"
          and m = foo_value_B
          and r = "(components_get (hooks_context ''never'' True),
                    getParentComponent (hooks_context ''never'' True))"]
        context_set_only_grows[where ctx = "hooks_context ''always'' True" and d = foo_useContext
          and n = "''foo''" and args = "[Identifier ''Ctx'']"
          and s = "handleStatelessComponent (hooks_context ''always'' True) fun_A init_state"
          and es = "stable (hooks_context ''always'' True) [Exit fun_A, Enter fun_B]"
          and m = foo_value_B
          and r = "(components_get (hooks_context ''always'' True),
                    getParentComponent (hooks_context ''always'' True))"]
  by (simp add: hooks_context_def example_context_def hasHooks_def foo_useContext_def
        foo_value_B_def fun_A_def fun_B_def configuration_def module_scope_def init_state_def
        contextSet_enter at_registry_def)

text \<open>
  The claim as stated has every later access on the name reported. In
  \<^verbatim>\<open>function A() { const foo = useContext(Ctx); return <p/>; }\<close> followed by
  \<^verbatim>\<open>function B(foo) { foo.value = 1; return <p/>; }\<close> in the mode always, the name is in
  the set and B is a registered component, but the access is the left-hand side of an
  assignment and nothing is reported at it.
\<close>

theorem later_assignment_counterexample:
  "configuration hooks_assign_context = ''always''
   \<and> ''foo'' \<in> contextSet
        (run hooks_assign_context
           (stable hooks_assign_context
              [Enter fun_A, Declarator foo_useContext, Exit fun_A, Enter fun_B]) init_state)
   \<and> components_get hooks_assign_context
        (block (getScope hooks_assign_context (m_id foo_value_B_assign))) \<noteq> None
   \<and> name_of (m_object foo_value_B_assign) = Some ''foo''
   \<and> isAssignmentLHS hooks_assign_context (m_id foo_value_B_assign)
        = util_isAssignmentLHS foo_value_B_assign
   \<and> emitted
        (run hooks_assign_context
           (stable hooks_assign_context
              [Enter fun_A, Declarator foo_useContext, Exit fun_A, Enter fun_B]) init_state)
        (visit_MemberExpression hooks_assign_context foo_value_B_assign
           (run hooks_assign_context
              (stable hooks_assign_context
                 [Enter fun_A, Declarator foo_useContext, Exit fun_A, Enter fun_B]) init_state))
      = []"
  by (simp add: hooks_assign_context_def hooks_context_def example_context_def hasHooks_def
        foo_useContext_def foo_value_B_assign_def fun_A_def fun_B_def configuration_def
        module_scope_def init_state_def util_isAssignmentLHS_def
        handleStatelessComponent_def handleStatelessComponentExit_def
        visit_VariableDeclarator_def visit_MemberExpression_def handleSFCUsage_lhs
        handleClassUsage_lhs Let_def evalParams_def evalParam_def push_def pop_def emit_def
        emitted_def class_field_name_def)

section \<open>Message keys\<close>

text \<open>
  Claim C9 says that every report carries a key of the catalog \<open>messages\<close>. The two
  reports of the context hook do not: they are made with \<^verbatim>\<open>context.report\<close> and a
  message text, while every other report of the rule goes through the helper with its
  key. In \<^verbatim>\<open>function A() { const foo = useContext(Ctx); return <p>{foo.value}</p>; }\<close> in
  the mode always, and in \<^verbatim>\<open>function A() { const {x} = useContext(Ctx); return <p>{x}</p>; }\<close>
  in the mode never, the one report has no key; its text is what the catalog's
  useDestructAssignment and noDestructAssignment print.
\<close>

theorem context_hook_reports_have_no_key:
  "map messageId
     (reports (run (hooks_context ''always'' True)
        (stable (hooks_context ''always'' True)
           [Enter fun_A, Declarator foo_useContext, Member foo_value_A, Exit fun_A])
        init_state))
     = [None]
   \<and> map message
     (reports (run (hooks_context ''always'' True)
        (stable (hooks_context ''always'' True)
           [Enter fun_A, Declarator foo_useContext, Member foo_value_A, Exit fun_A])
        init_state))
     = [''Must use destructuring foo assignment'']
   \<and> map messageId
     (reports (run (hooks_context ''never'' True)
        (stable (hooks_context ''never'' True)
           [Enter fun_A, Declarator x_useContext, Exit fun_A])
        init_state))
     = [None]
   \<and> map message
     (reports (run (hooks_context ''never'' True)
        (stable (hooks_context ''never'' True)
           [Enter fun_A, Declarator x_useContext, Exit fun_A])
        init_state))
     = [''Must never use destructuring useContext assignment'']"
  by (simp add: hooks_context_def example_context_def hasHooks_def foo_useContext_def
        x_useContext_def foo_value_A_def fun_A_def fun_B_def configuration_def module_scope_def
        init_state_def handleStatelessComponent_def handleStatelessComponentExit_def
        visit_VariableDeclarator_def visit_MemberExpression_def handleSFCUsage_def Let_def
        evalParams_def push_def pop_def emit_def context_report_def template_str_def
        propsName_def contextName_def truthy_name_def class_field_name_def)

end
